theory Spec2Isabelle
  imports Complex_Main
begin

section \<open>Python values and errors\<close>

text \<open>
  The module \<^verbatim>\<open>rnnvis/state_processor.py\<close> is embedded function by function. Every
  exception the Python code can raise is a value of \<open>error\<close>; a function that can raise
  returns \<open>error + 'a\<close>, with \<open>Inl\<close> for the exception. A \<open>ValueError\<close> carries its
  message, so that the range check of \<open>get_empirical_strength\<close> can be told apart from
  the \<open>ValueError\<close>s of the built-ins.
\<close>

datatype error =
    ValueError string
  | IndexError
  | KeyError
  | TypeError
  | AssertionError
  | LookupError
  | FileNotFoundError
  | AxisError

definition bindE :: "error + 'a \<Rightarrow> ('a \<Rightarrow> error + 'b) \<Rightarrow> error + 'b" where
  "bindE m f = (case m of Inl e \<Rightarrow> Inl e | Inr x \<Rightarrow> f x)"

text \<open>
  Indexing a Python sequence of length \<open>n\<close> with the integer \<open>i\<close>: a negative index
  counts from the end, anything outside \<open>-n \<le> i < n\<close> raises \<open>IndexError\<close>.
\<close>

definition py_index :: "nat \<Rightarrow> int \<Rightarrow> error + nat" where
  "py_index n i =
     (if 0 \<le> i \<and> i < int n then Inr (nat i)
      else if - int n \<le> i \<and> i < 0 then Inr (nat (int n + i))
      else Inl IndexError)"

text \<open>Python's \<open>max\<close> of a list of integers: \<open>ValueError\<close> on the empty list.\<close>

definition py_max :: "int list \<Rightarrow> error + int" where
  "py_max xs =
     (case xs of
        [] \<Rightarrow> Inl (ValueError ''max() arg is an empty sequence'')
      | x # ys \<Rightarrow> Inr (fold max ys x))"

section \<open>The grouper: \<open>sort_by_id\<close>\<close>

text \<open>
  \<^verbatim>\<open>
  def sort_by_id(word_ids, states):
      max_id = max(word_ids)
      id_to_states = [None] * (max_id+1)
      for k, id_ in enumerate(word_ids):
          if id_to_states[id_] is None:
              id_to_states[id_] = []
          id_to_states[id_].append(states[k])
      return id_to_states
  \<close>
  A bucket is \<open>None\<close> or \<open>Some\<close> list. \<open>[None] * m\<close> is the empty list for \<open>m \<le> 0\<close>.
  The loop is a recursion over the remaining ids, with the position \<open>k\<close> and the bucket
  list as accumulators; both subscripts can raise \<open>IndexError\<close>.
\<close>

definition bucket_items :: "'a list option \<Rightarrow> 'a list" where
  "bucket_items b = (case b of None \<Rightarrow> [] | Some l \<Rightarrow> l)"

fun sort_by_id_loop ::
  "nat \<Rightarrow> int list \<Rightarrow> 'a list \<Rightarrow> 'a list option list \<Rightarrow> error + 'a list option list" where
  "sort_by_id_loop k [] states id_to_states = Inr id_to_states"
| "sort_by_id_loop k (wid # ids) states id_to_states =
     (case py_index (length id_to_states) wid of
        Inl e \<Rightarrow> Inl e
      | Inr j \<Rightarrow>
          (if k < length states
           then sort_by_id_loop (Suc k) ids states
                  (id_to_states[j := Some (bucket_items (id_to_states ! j) @ [states ! k])])
           else Inl IndexError))"

definition sort_by_id :: "int list \<Rightarrow> 'a list \<Rightarrow> error + 'a list option list" where
  "sort_by_id word_ids states =
     bindE (py_max word_ids)
       (\<lambda>max_id. sort_by_id_loop 0 word_ids states (replicate (nat (max_id + 1)) None))"

text \<open>
  The states recorded at id \<open>j\<close>, in timestep order: what the bucket of \<open>j\<close> has to hold
  after the ids \<open>ids\<close> were scanned against the states from position \<open>k\<close> on.
\<close>

definition states_at :: "int list \<Rightarrow> 'a list \<Rightarrow> nat \<Rightarrow> nat \<Rightarrow> 'a list" where
  "states_at ids states k j = map snd (filter (\<lambda>p. fst p = int j) (zip ids (drop k states)))"

definition bucket_size :: "'a list option \<Rightarrow> nat" where
  "bucket_size b = length (bucket_items b)"

section \<open>The serializer: \<open>solution2json\<close>\<close>

text \<open>
  \<^verbatim>\<open>
  def solution2json(solution, states_num, labels=None, path=None):
      if isinstance(solution, np.ndarray):
          solution = solution.tolist()
      if isinstance(labels, np.ndarray):
          labels = labels.tolist()
      if labels is None:
          labels = [0] * len(solution)
      layers = []
      state_ids = []
      for i, num in enumerate(states_num):
          layers += [i+1] * num
          state_ids += list(range(num))
      points = [{'coords': s, 'layer': layers[i], 'state_id': state_ids[i], 'label': labels[i]}
                for i, s in enumerate(solution)]
      return dict2json(points, path)
  \<close>
  The solution is the list of its rows (what \<open>tolist\<close> gives), of any type \<open>'c\<close>. A
  point is a record with the four keys of the dictionary. \<open>[i+1] * num\<close> and
  \<open>range(num)\<close> are empty for \<open>num \<le> 0\<close>. \<open>dict2json\<close> belongs to
  \<^verbatim>\<open>rnnvis.utils.io_utils\<close> and is a parameter.
\<close>

record 'c point =
  pt_coords :: 'c
  pt_layer :: int
  pt_state_id :: int
  pt_label :: int

fun expand_states_num ::
  "nat \<Rightarrow> int list \<Rightarrow> int list \<Rightarrow> int list \<Rightarrow> int list \<times> int list" where
  "expand_states_num i [] layers state_ids = (layers, state_ids)"
| "expand_states_num i (num # nums) layers state_ids =
     expand_states_num (Suc i) nums
       (layers @ replicate (nat num) (int i + 1))
       (state_ids @ map int [0..<nat num])"

fun make_points ::
  "nat \<Rightarrow> 'c list \<Rightarrow> int list \<Rightarrow> int list \<Rightarrow> int list \<Rightarrow> error + 'c point list" where
  "make_points i [] layers state_ids labels = Inr []"
| "make_points i (s # solution) layers state_ids labels =
     (if i < length layers \<and> i < length state_ids \<and> i < length labels
      then bindE (make_points (Suc i) solution layers state_ids labels)
             (\<lambda>points. Inr (\<lparr>pt_coords = s, pt_layer = layers ! i,
                               pt_state_id = state_ids ! i, pt_label = labels ! i\<rparr> # points))
      else Inl IndexError)"

definition solution2json_points ::
  "'c list \<Rightarrow> int list \<Rightarrow> int list option \<Rightarrow> error + 'c point list" where
  "solution2json_points solution states_num labels =
     (let labels' = (case labels of None \<Rightarrow> replicate (length solution) 0 | Some ls \<Rightarrow> ls);
          (layers, state_ids) = expand_states_num 0 states_num [] []
      in make_points 0 solution layers state_ids labels')"

definition solution2json ::
  "('c point list \<Rightarrow> 'p \<Rightarrow> 'j) \<Rightarrow> 'c list \<Rightarrow> int list \<Rightarrow> int list option \<Rightarrow> 'p \<Rightarrow> error + 'j" where
  "solution2json dict2json solution states_num labels path =
     bindE (solution2json_points solution states_num labels)
       (\<lambda>points. Inr (dict2json points path))"

text \<open>
  The position at which the block of layer \<open>j\<close> starts in the expanded arrays: the sum
  of the (non-negative parts of the) counts before it.
\<close>

definition block_start :: "int list \<Rightarrow> nat \<Rightarrow> nat" where
  "block_start states_num j = sum_list (map nat (take j states_num))"

section \<open>Effects: the cache directory and the database\<close>

text \<open>
  The module reads and writes pickle files under \<^verbatim>\<open>_cached/tmp\<close> and queries a
  database. Both are outside of it (\<^verbatim>\<open>rnnvis.db\<close>, \<^verbatim>\<open>rnnvis.utils.io_utils\<close>), so
  the database queries and \<open>get_path\<close> are parameters, gathered in the record
  \<open>services\<close>. The file system is part of the state that every effectful function takes
  and returns, together with the trace of the file and database operations performed
  so far; the trace is what lets a statement say that an error was raised before any
  such operation. A function with effects has the type
  \<open>'a world \<Rightarrow> (error + 'r) \<times> 'a world\<close>: what it returns or raises, and the world it
  leaves behind.

  A pickle file written by this module holds a list of word ids or a list of arrays.
  A file that holds the other kind than the one its reader goes on to use is reported
  as \<open>TypeError\<close> at the point where it is read.
\<close>

datatype 'a pickled = PInts "int list" | PArrays "'a list"

datatype io_event =
    FileExists string
  | FileRead string
  | FileWrite string
  | QueryEvals string string
  | QueryEvaluationRecords nat

record 'a world =
  files :: "string \<rightharpoonup> 'a pickled"
  io_trace :: "io_event list"

record 'a eval_record =
  word_id :: int
  state_fields :: "string \<rightharpoonup> 'a"

record 'a services =
  query_evals :: "string \<Rightarrow> string \<Rightarrow> nat list"
  query_evaluation_records :: "nat \<Rightarrow> 'a eval_record list"
  get_path :: "string \<Rightarrow> string \<Rightarrow> string"

definition tmp_dir :: string where
  "tmp_dir = ''_cached/tmp''"

definition returnIO :: "'r \<Rightarrow> 'w \<Rightarrow> (error + 'r) \<times> 'w" where
  "returnIO x w = (Inr x, w)"

definition liftE :: "error + 'r \<Rightarrow> 'w \<Rightarrow> (error + 'r) \<times> 'w" where
  "liftE r w = (r, w)"

definition bindIO ::
  "('w \<Rightarrow> (error + 'x) \<times> 'w) \<Rightarrow> ('x \<Rightarrow> 'w \<Rightarrow> (error + 'y) \<times> 'w) \<Rightarrow> 'w \<Rightarrow> (error + 'y) \<times> 'w" where
  "bindIO m f w = (case m w of (Inl e, w') \<Rightarrow> (Inl e, w') | (Inr x, w') \<Rightarrow> f x w')"

definition record_event :: "io_event \<Rightarrow> 'a world \<Rightarrow> 'a world" where
  "record_event ev w = w\<lparr>io_trace := io_trace w @ [ev]\<rparr>"

definition file_exists :: "string \<Rightarrow> 'a world \<Rightarrow> (error + bool) \<times> 'a world" where
  "file_exists path w = (Inr (files w path \<noteq> None), record_event (FileExists path) w)"

definition read_pickle :: "string \<Rightarrow> 'a world \<Rightarrow> (error + 'a pickled) \<times> 'a world" where
  "read_pickle path w =
     ((case files w path of None \<Rightarrow> Inl FileNotFoundError | Some v \<Rightarrow> Inr v),
      record_event (FileRead path) w)"

definition write_pickle :: "string \<Rightarrow> 'a pickled \<Rightarrow> 'a world \<Rightarrow> (error + unit) \<times> 'a world" where
  "write_pickle path v w =
     (Inr (), record_event (FileWrite path) (w\<lparr>files := (files w)(path \<mapsto> v)\<rparr>))"

text \<open>A list comprehension whose body can raise: the first exception ends it.\<close>

fun mapE :: "('a \<Rightarrow> error + 'b) \<Rightarrow> 'a list \<Rightarrow> error + 'b list" where
  "mapE f [] = Inr []"
| "mapE f (x # xs) = bindE (f x) (\<lambda>y. bindE (mapE f xs) (\<lambda>ys. Inr (y # ys)))"

section \<open>The record fetcher and the differencer\<close>

text \<open>
  \<^verbatim>\<open>
  def cal_diff(arrays):
      diff_arrays = []
      for i in range(len(arrays)-1):
          diff_arrays.append(arrays[i+1] - arrays[i])
      return diff_arrays
  \<close>
  The elements are whatever the records hold; their subtraction is the parameter
  \<open>sub\<close>, which can raise (arrays whose shapes do not fit).
\<close>

fun cal_diff :: "('a \<Rightarrow> 'a \<Rightarrow> error + 'a) \<Rightarrow> 'a list \<Rightarrow> error + 'a list" where
  "cal_diff sub (a # b # arrays) =
     bindE (sub b a) (\<lambda>d. bindE (cal_diff sub (b # arrays)) (\<lambda>ds. Inr (d # ds)))"
| "cal_diff sub arrays = Inr []"

text \<open>
  \<^verbatim>\<open>
  def fetch_state_of_eval(eval_id, field_name='state_c', diff=True):
      records = query_evaluation_records(eval_id)
      word_ids = [record['word_id'] for record in records]
      if isinstance(field_name, list):
          assert isinstance(diff, list)
      else:
          field_name = [field_name]
          diff = [diff]
      states = []
      for i, field in enumerate(field_name):
          state = [record[field] for record in records]
          if diff[i]:
              state = [state[0]] + cal_diff(state)
          states.append(state)
      if len(states) == 1:
          states = states[0]
      return word_ids, states
  \<close>
  \<open>field_name\<close> is a string or a list of strings, \<open>diff\<close> a flag or a list of flags.
  A list of flags given with a single field name is wrapped into a one-element list,
  whose element is true exactly when that list is not empty. The result holds one
  sequence of states when there is one field, a list of sequences otherwise.
\<close>

datatype field_arg = FieldName string | FieldNames "string list"

datatype diff_arg = DiffFlag bool | DiffFlags "bool list"

datatype 'a states_out = Single "'a list" | Multi "'a list list"

fun normalize_fields :: "field_arg \<Rightarrow> diff_arg \<Rightarrow> error + string list \<times> bool list" where
  "normalize_fields (FieldNames fs) (DiffFlags ds) = Inr (fs, ds)"
| "normalize_fields (FieldNames fs) (DiffFlag d) = Inl AssertionError"
| "normalize_fields (FieldName f) (DiffFlag d) = Inr ([f], [d])"
| "normalize_fields (FieldName f) (DiffFlags ds) = Inr ([f], [ds \<noteq> []])"

definition read_field :: "'a eval_record list \<Rightarrow> string \<Rightarrow> error + 'a list" where
  "read_field records field =
     mapE (\<lambda>r. case state_fields r field of None \<Rightarrow> Inl KeyError | Some s \<Rightarrow> Inr s) records"

definition keep_first_then_diff :: "('a \<Rightarrow> 'a \<Rightarrow> error + 'a) \<Rightarrow> 'a list \<Rightarrow> error + 'a list" where
  "keep_first_then_diff sub state =
     (case state of
        [] \<Rightarrow> Inl IndexError
      | s0 # _ \<Rightarrow> bindE (cal_diff sub state) (\<lambda>ds. Inr (s0 # ds)))"

fun fetch_fields ::
  "('a \<Rightarrow> 'a \<Rightarrow> error + 'a) \<Rightarrow> 'a eval_record list \<Rightarrow> nat \<Rightarrow> string list \<Rightarrow> bool list \<Rightarrow>
     error + 'a list list" where
  "fetch_fields sub records i [] flags = Inr []"
| "fetch_fields sub records i (field # names) flags =
     bindE (read_field records field) (\<lambda>state.
       if i < length flags
       then bindE (if flags ! i then keep_first_then_diff sub state else Inr state) (\<lambda>state'.
              bindE (fetch_fields sub records (Suc i) names flags) (\<lambda>states.
                Inr (state' # states)))
       else Inl IndexError)"

definition fetch_state_of_eval ::
  "('a \<Rightarrow> 'a \<Rightarrow> error + 'a) \<Rightarrow> 'a services \<Rightarrow> nat \<Rightarrow> field_arg \<Rightarrow> diff_arg \<Rightarrow>
     'a world \<Rightarrow> (error + int list \<times> 'a states_out) \<times> 'a world" where
  "fetch_state_of_eval sub sv eval_id field_name diff w =
     (let records = query_evaluation_records sv eval_id;
          w' = record_event (QueryEvaluationRecords eval_id) w;
          word_ids = map word_id records
      in (bindE (normalize_fields field_name diff) (\<lambda>(names, flags).
            bindE (fetch_fields sub records 0 names flags) (\<lambda>states.
              Inr (word_ids, (case states of [state] \<Rightarrow> Single state | _ \<Rightarrow> Multi states)))),
          w'))"

text \<open>The sequence returned for the \<open>k\<close>-th requested field.\<close>

fun field_sequence :: "'a states_out \<Rightarrow> nat \<Rightarrow> 'a list" where
  "field_sequence (Single state) k = state"
| "field_sequence (Multi states) k = states ! k"

text \<open>
  \<^verbatim>\<open>
  def fetch_states(data_name, model_name, field_name='state_c', diff=True):
      evals = query_evals(data_name, model_name)
      if evals.count() == 0:
          raise LookupError(...)
      word_ids = []
      states = []
      for eval in evals:
          word_ids_, states_ = fetch_state_of_eval(eval['_id'], field_name, diff)
          word_ids += word_ids_
          states += states_
      return word_ids, states
  \<close>
  Embedded for the way this module calls it (from \<open>load_words_and_state\<close>): one field
  name, a string, and one flag. With one field \<open>fetch_state_of_eval\<close> always returns a
  single sequence, so the other branch of \<open>fetch_evals\<close> is never taken.
\<close>

fun fetch_evals ::
  "('a \<Rightarrow> 'a \<Rightarrow> error + 'a) \<Rightarrow> 'a services \<Rightarrow> nat list \<Rightarrow> string \<Rightarrow> bool \<Rightarrow>
     int list \<Rightarrow> 'a list \<Rightarrow> 'a world \<Rightarrow> (error + int list \<times> 'a list) \<times> 'a world" where
  "fetch_evals sub sv [] field_name diff word_ids states w = (Inr (word_ids, states), w)"
| "fetch_evals sub sv (eval_id # evals) field_name diff word_ids states w =
     (case fetch_state_of_eval sub sv eval_id (FieldName field_name) (DiffFlag diff) w of
        (Inl e, w') \<Rightarrow> (Inl e, w')
      | (Inr (word_ids', Single states'), w') \<Rightarrow>
          fetch_evals sub sv evals field_name diff (word_ids @ word_ids') (states @ states') w'
      | (Inr (word_ids', Multi _), w') \<Rightarrow> (Inl TypeError, w'))"

definition fetch_states ::
  "('a \<Rightarrow> 'a \<Rightarrow> error + 'a) \<Rightarrow> 'a services \<Rightarrow> string \<Rightarrow> string \<Rightarrow> string \<Rightarrow> bool \<Rightarrow>
     'a world \<Rightarrow> (error + int list \<times> 'a list) \<times> 'a world" where
  "fetch_states sub sv data_name model_name field_name diff w =
     (let evals = query_evals sv data_name model_name;
          w' = record_event (QueryEvals data_name model_name) w
      in if length evals = 0 then (Inl LookupError, w')
         else fetch_evals sub sv evals field_name diff [] [] w')"

text \<open>
  \<^verbatim>\<open>
  def load_words_and_state(data_name, model_name, state_name, diff=True):
      word_file = data_name + '-' + model_name + '-words.pkl'
      word_file = get_path(_tmp_dir, word_file)
      states_file = data_name + '-' + model_name + '-' + state_name + ('-diff' if diff else '') + '.pkl'
      states_file = get_path(_tmp_dir, states_file)
      if file_exists(word_file) and file_exists(states_file):
          with open(word_file, 'rb') as f:
              words = pickle.loads(f.read())
          with open(states_file, 'rb') as f:
              states = pickle.loads(f.read())
      else:
          words, states = fetch_states(data_name, model_name, state_name, diff)
          before_save(word_file)
          with open(word_file, 'wb') as f:
              pickle.dump(words, f)
          with open(states_file, 'wb') as f:
              pickle.dump(states, f)
      return words, states
  \<close>
  \<open>before_save\<close> creates the missing directories, which the model of the file system
  does not have.
\<close>

definition load_words_and_state ::
  "('a \<Rightarrow> 'a \<Rightarrow> error + 'a) \<Rightarrow> 'a services \<Rightarrow> string \<Rightarrow> string \<Rightarrow> string \<Rightarrow> bool \<Rightarrow>
     'a world \<Rightarrow> (error + int list \<times> 'a list) \<times> 'a world" where
  "load_words_and_state sub sv data_name model_name state_name diff =
     (let word_file = get_path sv tmp_dir (data_name @ ''-'' @ model_name @ ''-words.pkl'');
          states_file = get_path sv tmp_dir
            (data_name @ ''-'' @ model_name @ ''-'' @ state_name @
             (if diff then ''-diff'' else '''') @ ''.pkl'')
      in bindIO (file_exists word_file) (\<lambda>has_words.
         bindIO (if has_words then file_exists states_file else returnIO False) (\<lambda>has_both.
           if has_both
           then bindIO (read_pickle word_file) (\<lambda>words.
                bindIO (read_pickle states_file) (\<lambda>states.
                  case (words, states) of
                    (PInts ws, PArrays sts) \<Rightarrow> returnIO (ws, sts)
                  | _ \<Rightarrow> liftE (Inl TypeError)))
           else bindIO (fetch_states sub sv data_name model_name state_name diff) (\<lambda>(words, states).
                bindIO (write_pickle word_file (PInts words)) (\<lambda>_.
                bindIO (write_pickle states_file (PArrays states)) (\<lambda>_.
                  returnIO (words, states)))))))"

section \<open>Arrays\<close>

text \<open>
  A numpy array is its shape and its elements in row-major order, with
  \<open>length data = prod_list shape\<close>. The elements are real numbers: the model computes
  in exact arithmetic where numpy computes in floating point. Only the operations that
  the module uses are modelled, each with the exceptions numpy raises.
\<close>

record ndarray =
  shape :: "nat list"
  data :: "real list"

definition nd_zeros :: "nat list \<Rightarrow> ndarray" where
  "nd_zeros shp = \<lparr>shape = shp, data = replicate (prod_list shp) 0\<rparr>"

text \<open>Row \<open>i\<close> along axis 0, and the columns along axis 0, of the flat data.\<close>

definition nd_row :: "ndarray \<Rightarrow> nat \<Rightarrow> real list" where
  "nd_row a i = (let k = prod_list (tl (shape a)) in take k (drop (i * k) (data a)))"

definition nd_columns :: "ndarray \<Rightarrow> real list list" where
  "nd_columns a =
     (let n = hd (shape a); k = prod_list (tl (shape a))
      in map (\<lambda>j. map (\<lambda>i. data a ! (i * k + j)) [0..<n]) [0..<k])"

text \<open>\<open>a[i]\<close> for an integer \<open>i\<close>, and \<open>a[idx]\<close> for a list of integers.\<close>

definition nd_index :: "ndarray \<Rightarrow> int \<Rightarrow> error + ndarray" where
  "nd_index a i =
     (case shape a of
        [] \<Rightarrow> Inl IndexError
      | n # rest \<Rightarrow> bindE (py_index n i) (\<lambda>r. Inr \<lparr>shape = rest, data = nd_row a r\<rparr>))"

definition nd_take :: "ndarray \<Rightarrow> int list \<Rightarrow> error + ndarray" where
  "nd_take a idx =
     (case shape a of
        [] \<Rightarrow> Inl IndexError
      | n # rest \<Rightarrow>
          bindE (mapE (py_index n) idx)
            (\<lambda>rows. Inr \<lparr>shape = length idx # rest, data = concat (map (nd_row a) rows)\<rparr>))"

text \<open>
  \<open>a - b\<close>. Arrays of one shape are subtracted element by element. Otherwise numpy
  broadcasts: the shapes are aligned at their last axes, an axis of length 1 is
  repeated, and shapes that do not fit raise \<open>ValueError\<close>.
\<close>

fun broadcast_rev :: "nat list \<Rightarrow> nat list \<Rightarrow> nat list option" where
  "broadcast_rev [] ys = Some ys"
| "broadcast_rev xs [] = Some xs"
| "broadcast_rev (x # xs) (y # ys) =
     (if x = y \<or> y = 1 then map_option ((#) x) (broadcast_rev xs ys)
      else if x = 1 then map_option ((#) y) (broadcast_rev xs ys)
      else None)"

definition broadcast_shape :: "nat list \<Rightarrow> nat list \<Rightarrow> nat list option" where
  "broadcast_shape s t = map_option rev (broadcast_rev (rev s) (rev t))"

fun broadcast_data :: "nat list \<Rightarrow> nat list \<Rightarrow> real list \<Rightarrow> real list" where
  "broadcast_data (s # ss) (t # ts) d =
     (let k = prod_list ss;
          rows = map (\<lambda>i. take k (drop (i * k) d)) [0..<s]
      in if s = t then concat (map (broadcast_data ss ts) rows)
         else concat (replicate t (broadcast_data ss ts (take k d))))"
| "broadcast_data ss ts d = d"

definition broadcast_to :: "ndarray \<Rightarrow> nat list \<Rightarrow> real list" where
  "broadcast_to a shp =
     broadcast_data (replicate (length shp - length (shape a)) 1 @ shape a) shp (data a)"

definition nd_sub :: "ndarray \<Rightarrow> ndarray \<Rightarrow> error + ndarray" where
  "nd_sub a b =
     (if shape a = shape b
      then Inr \<lparr>shape = shape a, data = map2 (-) (data a) (data b)\<rparr>
      else (case broadcast_shape (shape a) (shape b) of
              None \<Rightarrow> Inl (ValueError ''operands could not be broadcast together'')
            | Some shp \<Rightarrow>
                Inr \<lparr>shape = shp, data = map2 (-) (broadcast_to a shp) (broadcast_to b shp)\<rparr>))"

text \<open>\<open>np.stack(arrays, axis=0)\<close>: a new first axis; the arrays must have one shape.\<close>

definition nd_stack :: "ndarray list \<Rightarrow> error + ndarray" where
  "nd_stack arrays =
     (case arrays of
        [] \<Rightarrow> Inl (ValueError ''need at least one array to stack'')
      | a # _ \<Rightarrow>
          if \<forall>b \<in> set arrays. shape b = shape a
          then Inr \<lparr>shape = length arrays # shape a, data = concat (map data arrays)\<rparr>
          else Inl (ValueError ''all input arrays must have the same shape''))"

text \<open>
  \<open>np.vstack(arrays)\<close>: every array is made at least two-dimensional (a scalar becomes
  1 x 1, a vector of length n becomes 1 x n), then they are joined along axis 0 and
  must agree in all other axes.
\<close>

definition atleast_2d :: "ndarray \<Rightarrow> ndarray" where
  "atleast_2d a =
     (case shape a of
        [] \<Rightarrow> a\<lparr>shape := [1, 1]\<rparr>
      | [n] \<Rightarrow> a\<lparr>shape := [1, n]\<rparr>
      | _ \<Rightarrow> a)"

definition nd_vstack :: "ndarray list \<Rightarrow> error + ndarray" where
  "nd_vstack arrays =
     (case map atleast_2d arrays of
        [] \<Rightarrow> Inl (ValueError ''need at least one array to concatenate'')
      | a # rest \<Rightarrow>
          if \<forall>b \<in> set rest. tl (shape b) = tl (shape a)
          then Inr \<lparr>shape = sum_list (map (\<lambda>b. hd (shape b)) (a # rest)) # tl (shape a),
                    data = concat (map data (a # rest))\<rparr>
          else Inl (ValueError ''all the input array dimensions except for the concatenation axis must match exactly''))"

text \<open>
  Reductions along axis 0 (\<open>np.mean\<close>, \<open>np.std\<close>, \<open>np.percentile\<close> with
  \<open>axis=0\<close>): one value per column. \<open>mean_of\<close>, \<open>std_of\<close> and \<open>percentile_of\<close> are
  what they compute for one column in exact arithmetic: \<open>np.std\<close> is the population
  standard deviation, \<open>np.percentile\<close> interpolates linearly between the two nearest
  ranks of the sorted column.
\<close>

definition mean_of :: "real list \<Rightarrow> real" where
  "mean_of xs = sum_list xs / real (length xs)"

definition std_of :: "real list \<Rightarrow> real" where
  "std_of xs = sqrt (mean_of (map (\<lambda>x. (x - mean_of xs)\<^sup>2) xs))"

definition percentile_of :: "real list \<Rightarrow> real \<Rightarrow> real" where
  "percentile_of xs q =
     (let v = sort xs;
          pos = q / 100 * (real (length xs) - 1);
          lo = nat \<lfloor>pos\<rfloor>;
          hi = min (lo + 1) (length xs - 1)
      in v ! lo + (pos - real lo) * (v ! hi - v ! lo))"

definition reduce_axis0 :: "(real list \<Rightarrow> real) \<Rightarrow> ndarray \<Rightarrow> error + ndarray" where
  "reduce_axis0 f a =
     (case shape a of
        [] \<Rightarrow> Inl AxisError
      | n # rest \<Rightarrow> Inr \<lparr>shape = rest, data = map f (nd_columns a)\<rparr>)"

definition nd_mean_axis0 :: "ndarray \<Rightarrow> error + ndarray" where
  "nd_mean_axis0 a = reduce_axis0 mean_of a"

text \<open>
  \<open>np.argsort(a)\<close> sorts along the last axis and returns the positions, an integer
  array of the shape of \<open>a\<close>; for equal values the smaller position comes first here
  (numpy's default sort does not promise an order among equal values).
  \<open>a[idx]\<close> for such an index array gathers rows of \<open>a\<close> along axis 0.
\<close>

record index_array =
  ishape :: "nat list"
  idata :: "nat list"

definition argsort_list :: "real list \<Rightarrow> nat list" where
  "argsort_list xs = sort_key (\<lambda>i. xs ! i) [0..<length xs]"

definition nd_argsort :: "ndarray \<Rightarrow> index_array" where
  "nd_argsort a =
     (case rev (shape a) of
        [] \<Rightarrow> \<lparr>ishape = [1], idata = [0]\<rparr>
      | l # _ \<Rightarrow>
          \<lparr>ishape = shape a,
           idata = concat (map (\<lambda>c. argsort_list (take l (drop (c * l) (data a))))
                     [0..<length (data a) div l])\<rparr>)"

definition nd_gather :: "ndarray \<Rightarrow> index_array \<Rightarrow> error + ndarray" where
  "nd_gather a idx =
     (case shape a of
        [] \<Rightarrow> Inl IndexError
      | n # rest \<Rightarrow>
          if \<forall>i \<in> set (idata idx). i < n
          then Inr \<lparr>shape = ishape idx @ rest, data = concat (map (nd_row a) (idata idx))\<rparr>
          else Inl IndexError)"

section \<open>The strength aggregator\<close>

text \<open>
  \<^verbatim>\<open>
  def cal_empirical_strength(id_states, strength_func):
      state_shape = id_states[0][0].shape

      def strenth_map(states):
          if states is None:
              return np.zeros(state_shape)
          states_mat = np.stack(states, axis=0)
          return strength_func(states_mat)

      strength_list = list(map(strenth_map, id_states))
      return strength_list
  \<close>
  \<open>id_states[0][0]\<close> raises \<open>IndexError\<close> on an empty list of buckets, \<open>TypeError\<close>
  when the first bucket is \<open>None\<close> (\<open>None\<close> cannot be subscripted) and \<open>IndexError\<close>
  when the first bucket is an empty list.
\<close>

definition strenth_map ::
  "nat list \<Rightarrow> (ndarray \<Rightarrow> error + ndarray) \<Rightarrow> ndarray list option \<Rightarrow> error + ndarray" where
  "strenth_map state_shape strength_func states =
     (case states of
        None \<Rightarrow> Inr (nd_zeros state_shape)
      | Some sts \<Rightarrow> bindE (nd_stack sts) strength_func)"

definition cal_empirical_strength ::
  "ndarray list option list \<Rightarrow> (ndarray \<Rightarrow> error + ndarray) \<Rightarrow> error + ndarray list" where
  "cal_empirical_strength id_states strength_func =
     (case id_states of
        [] \<Rightarrow> Inl IndexError
      | None # _ \<Rightarrow> Inl TypeError
      | Some [] # _ \<Rightarrow> Inl IndexError
      | Some (s # _) # _ \<Rightarrow> mapE (strenth_map (shape s) strength_func) id_states)"

text \<open>
  \<^verbatim>\<open>
  def get_empirical_strength(data_name, model_name, state_name, layer=-1, top_k=100):
      if not isinstance(layer, list):
          layer = [layer]
      if top_k > 1000:
          raise ValueError("selected words range too large, only support top 1000 frequent words!")
      top = 100 if top_k <= 100 else 500 if top_k <= 500 else 1000
      tmp_file = '-'.join([data_name, model_name, state_name, str(top)]) + '.pkl'
      tmp_file = get_path(_tmp_dir, tmp_file)
      if file_exists(tmp_file):
          with open(tmp_file, 'rb') as f:
              id_strengths = pickle.loads(f.read())
      else:
          words, states = load_words_and_state(data_name, model_name, state_name, diff=True)
          id_to_states = sort_by_id(words, states)
          id_strengths = cal_empirical_strength(id_to_states[:top], lambda state_mat: np.mean(state_mat, axis=0))
          with open(tmp_file, 'wb') as f:
              pickle.dump(id_strengths, f)

      return [id_strengths[i][layer] for i in range(top_k)]
  \<close>
  The layer selector is an integer or a list of integers. \<open>strength_top\<close> is the
  conditional expression that sets \<open>top\<close>; \<open>load_or_compute_strength\<close> is the
  \<open>if\<close>/\<open>else\<close> that yields \<open>id_strengths\<close>; \<open>slice_strengths\<close> is the final list
  comprehension.
\<close>

datatype layer_sel = LayerInt int | LayerList "int list"

definition layer_list :: "layer_sel \<Rightarrow> int list" where
  "layer_list l = (case l of LayerList ls \<Rightarrow> ls | LayerInt i \<Rightarrow> [i])"

definition range_error :: error where
  "range_error = ValueError ''selected words range too large, only support top 1000 frequent words!''"

definition strength_top :: "int \<Rightarrow> int" where
  "strength_top top_k = (if top_k \<le> 100 then 100 else if top_k \<le> 500 then 500 else 1000)"

fun str_nat :: "nat \<Rightarrow> string" where
  "str_nat n =
     (if n < 10 then [''0123456789'' ! n]
      else str_nat (n div 10) @ [''0123456789'' ! (n mod 10)])"

declare str_nat.simps [simp del]

definition str_int :: "int \<Rightarrow> string" where
  "str_int i = (if i < 0 then CHR ''-'' # str_nat (nat (- i)) else str_nat (nat i))"

fun join :: "string \<Rightarrow> string list \<Rightarrow> string" where
  "join sep [] = []"
| "join sep [x] = x"
| "join sep (x # y # ys) = x @ sep @ join sep (y # ys)"

definition strength_file_name :: "string \<Rightarrow> string \<Rightarrow> string \<Rightarrow> int \<Rightarrow> string" where
  "strength_file_name data_name model_name state_name top_n =
     join ''-'' [data_name, model_name, state_name, str_int top_n] @ ''.pkl''"

definition load_or_compute_strength ::
  "ndarray services \<Rightarrow> string \<Rightarrow> string \<Rightarrow> string \<Rightarrow> int \<Rightarrow>
     ndarray world \<Rightarrow> (error + ndarray pickled) \<times> ndarray world" where
  "load_or_compute_strength sv data_name model_name state_name top_n =
     (let tmp_file = get_path sv tmp_dir (strength_file_name data_name model_name state_name top_n)
      in bindIO (file_exists tmp_file) (\<lambda>cached.
           if cached then read_pickle tmp_file
           else bindIO (load_words_and_state nd_sub sv data_name model_name state_name True)
                  (\<lambda>(words, states).
                bindIO (liftE (bindE (sort_by_id words states) (\<lambda>id_to_states.
                          cal_empirical_strength (take (nat top_n) id_to_states) nd_mean_axis0)))
                  (\<lambda>id_strengths.
                bindIO (write_pickle tmp_file (PArrays id_strengths)) (\<lambda>_.
                  returnIO (PArrays id_strengths))))))"

definition slice_strengths :: "ndarray pickled \<Rightarrow> int list \<Rightarrow> int \<Rightarrow> error + ndarray list" where
  "slice_strengths id_strengths layers top_k =
     mapE (\<lambda>i. case id_strengths of
                  PArrays arrays \<Rightarrow>
                    if i < length arrays then nd_take (arrays ! i) layers else Inl IndexError
                | PInts ints \<Rightarrow> if i < length ints then Inl TypeError else Inl IndexError)
       [0..<nat top_k]"

definition get_empirical_strength ::
  "ndarray services \<Rightarrow> string \<Rightarrow> string \<Rightarrow> string \<Rightarrow> layer_sel \<Rightarrow> int \<Rightarrow>
     ndarray world \<Rightarrow> (error + ndarray list) \<times> ndarray world" where
  "get_empirical_strength sv data_name model_name state_name layer top_k w =
     (let layers = layer_list layer
      in if top_k > 1000 then (Inl range_error, w)
         else bindIO
                (load_or_compute_strength sv data_name model_name state_name (strength_top top_k))
                (\<lambda>id_strengths. liftE (slice_strengths id_strengths layers top_k)) w)"

text \<open>
  Two notions for reasoning about the effects. A computation is \<open>steady\<close> when it never
  raises the range error of \<open>get_empirical_strength\<close> and only ever appends to the
  trace. The example database holds one evaluation with a single record, of word id 0,
  whose state has two layers of three units.
\<close>

definition steady :: "('a world \<Rightarrow> (error + 'r) \<times> 'a world) \<Rightarrow> bool" where
  "steady m = (\<forall>w. fst (m w) \<noteq> Inl range_error \<and>
                   (\<exists>evs. io_trace (snd (m w)) = io_trace w @ evs))"

definition example_services :: "ndarray services" where
  "example_services =
     \<lparr>query_evals = (\<lambda>data_name model_name. [0]),
      query_evaluation_records = (\<lambda>eval_id.
        [\<lparr>word_id = 0,
          state_fields = [''state'' \<mapsto> \<lparr>shape = [2, 3], data = [1, 2, 3, 4, 5, 6]\<rparr>]\<rparr>]),
      get_path = (\<lambda>dir name. dir @ ''/'' @ name)\<rparr>"

definition empty_world :: "ndarray world" where
  "empty_world = \<lparr>files = Map.empty, io_trace = []\<rparr>"

section \<open>The statistics engine\<close>

text \<open>
  \<^verbatim>\<open>
  def compute_stats(states, sort_by_mean=True, percent=50):
      layer_num = states[0].shape[0]
      states_layer_wise = []
      stds = []
      means = []
      errors_l = []
      errors_u = []
      indices = []
      idx = None
      for layer in range(layer_num):
          state_list = [state[layer] for state in states]
          states_mat = np.vstack(state_list)
          std = np.std(states_mat, axis=0)
          mean = np.mean(states_mat, axis=0)
          error_l = mean - np.percentile(states_mat, (100-percent)/2, axis=0)
          error_u = np.percentile(states_mat, 50 + percent/2, axis=0) - mean
          if sort_by_mean:
              idx = np.argsort(mean)
              mean = mean[idx]
              std = std[idx]
              error_u = error_u[idx]
              error_l = error_l[idx]
          indices.append(idx)
          stds.append(std)
          means.append(mean)
          errors_l.append(error_l)
          errors_u.append(error_u)
          states_layer_wise.append(states_mat)
      return means, stds, errors_l, errors_u, indices
  \<close>
  \<open>compute_layer\<close> is the body of the loop: the five values that one layer appends.
  \<open>states[0]\<close> raises \<open>IndexError\<close> on an empty list, and \<open>shape[0]\<close> on an array
  without axes.

  The values of this function are results of float64 arithmetic, and rounding decides
  their sign: the rounded mean of 0.1, 0.1, 0.1 is 0.10000000000000002, above the
  largest value. So the arithmetic of the function is not fixed to exact arithmetic
  here. The states hold the real numbers that their floats denote, and the operations
  on them are parameters, gathered in the record \<open>numerics\<close>: the scalar \<open>+\<close>, \<open>-\<close>
  and \<open>/\<close>, and what \<open>np.mean\<close>, \<open>np.std\<close> and \<open>np.percentile\<close> return for one
  column. Whatever holds for every \<open>numerics\<close> holds for float64. \<open>exact_numerics\<close>
  is the instance in exact arithmetic; float64 agrees with it wherever no operation
  rounds. \<open>np.percentile\<close> rejects a rank outside of 0..100, and the comparisons of
  \<open>np.argsort\<close> are exact.
\<close>

record numerics =
  fl_add :: "real \<Rightarrow> real \<Rightarrow> real"
  fl_sub :: "real \<Rightarrow> real \<Rightarrow> real"
  fl_div :: "real \<Rightarrow> real \<Rightarrow> real"
  fl_mean :: "real list \<Rightarrow> real"
  fl_std :: "real list \<Rightarrow> real"
  fl_percentile :: "real list \<Rightarrow> real \<Rightarrow> real"

definition exact_numerics :: numerics where
  "exact_numerics =
     \<lparr>fl_add = (+), fl_sub = (-), fl_div = (/),
      fl_mean = mean_of, fl_std = std_of, fl_percentile = percentile_of\<rparr>"

text \<open>\<open>a - b\<close> on arrays with the subtraction \<open>f\<close> of the elements, as \<open>nd_sub\<close>.\<close>

definition nd_elementwise ::
  "(real \<Rightarrow> real \<Rightarrow> real) \<Rightarrow> ndarray \<Rightarrow> ndarray \<Rightarrow> error + ndarray" where
  "nd_elementwise f a b =
     (if shape a = shape b
      then Inr \<lparr>shape = shape a, data = map2 f (data a) (data b)\<rparr>
      else (case broadcast_shape (shape a) (shape b) of
              None \<Rightarrow> Inl (ValueError ''operands could not be broadcast together'')
            | Some shp \<Rightarrow>
                Inr \<lparr>shape = shp, data = map2 f (broadcast_to a shp) (broadcast_to b shp)\<rparr>))"

definition nd_percentile_axis0 :: "numerics \<Rightarrow> ndarray \<Rightarrow> real \<Rightarrow> error + ndarray" where
  "nd_percentile_axis0 num a q =
     (if q < 0 \<or> 100 < q then Inl (ValueError ''Percentiles must be in the range [0, 100]'')
      else reduce_axis0 (\<lambda>xs. fl_percentile num xs q) a)"

text \<open>The two percentile ranks, \<open>(100-percent)/2\<close> and \<open>50 + percent/2\<close>.\<close>

definition lower_rank :: "numerics \<Rightarrow> real \<Rightarrow> real" where
  "lower_rank num percent = fl_div num (fl_sub num 100 percent) 2"

definition upper_rank :: "numerics \<Rightarrow> real \<Rightarrow> real" where
  "upper_rank num percent = fl_add num 50 (fl_div num percent 2)"

record stats =
  means :: "ndarray list"
  stds :: "ndarray list"
  errors_l :: "ndarray list"
  errors_u :: "ndarray list"
  indices :: "index_array option list"

definition compute_layer ::
  "numerics \<Rightarrow> ndarray list \<Rightarrow> bool \<Rightarrow> real \<Rightarrow> nat \<Rightarrow>
     error + ndarray \<times> ndarray \<times> ndarray \<times> ndarray \<times> index_array option" where
  "compute_layer num states sort_by_mean percent layer =
     bindE (mapE (\<lambda>state. nd_index state (int layer)) states) (\<lambda>state_list.
     bindE (nd_vstack state_list) (\<lambda>states_mat.
     bindE (reduce_axis0 (fl_std num) states_mat) (\<lambda>std.
     bindE (reduce_axis0 (fl_mean num) states_mat) (\<lambda>mean.
     bindE (nd_percentile_axis0 num states_mat (lower_rank num percent)) (\<lambda>lower.
     bindE (nd_elementwise (fl_sub num) mean lower) (\<lambda>error_l.
     bindE (nd_percentile_axis0 num states_mat (upper_rank num percent)) (\<lambda>upper.
     bindE (nd_elementwise (fl_sub num) upper mean) (\<lambda>error_u.
       if sort_by_mean
       then (let idx = nd_argsort mean
             in bindE (nd_gather mean idx) (\<lambda>mean'.
                bindE (nd_gather std idx) (\<lambda>std'.
                bindE (nd_gather error_u idx) (\<lambda>error_u'.
                bindE (nd_gather error_l idx) (\<lambda>error_l'.
                  Inr (mean', std', error_l', error_u', Some idx))))))
       else Inr (mean, std, error_l, error_u, None)))))))))"

definition compute_stats :: "numerics \<Rightarrow> ndarray list \<Rightarrow> bool \<Rightarrow> real \<Rightarrow> error + stats" where
  "compute_stats num states sort_by_mean percent =
     (case states of
        [] \<Rightarrow> Inl IndexError
      | s0 # _ \<Rightarrow>
          (case shape s0 of
             [] \<Rightarrow> Inl IndexError
           | layer_num # _ \<Rightarrow>
               bindE (mapE (compute_layer num states sort_by_mean percent) [0..<layer_num])
                 (\<lambda>layers.
                    Inr \<lparr>means = map (\<lambda>(m, s, l, u, i). m) layers,
                         stds = map (\<lambda>(m, s, l, u, i). s) layers,
                         errors_l = map (\<lambda>(m, s, l, u, i). l) layers,
                         errors_u = map (\<lambda>(m, s, l, u, i). u) layers,
                         indices = map (\<lambda>(m, s, l, u, i). i) layers\<rparr>)))"

text \<open>
  The values of unit \<open>u\<close> of layer \<open>layer\<close> in the records, for records of
  \<open>n_units\<close> units per layer: the column that the statistics of that unit are taken of.
\<close>

definition unit_values :: "ndarray list \<Rightarrow> nat \<Rightarrow> nat \<Rightarrow> nat \<Rightarrow> real list" where
  "unit_values states n_units layer u = map (\<lambda>s. data s ! (layer * n_units + u)) states"

text \<open>
  The bands as the specification words them, for one unit: its mean minus its
  percentile at the lower rank, and its percentile at the upper rank minus its mean.
\<close>

definition lower_band :: "numerics \<Rightarrow> ndarray list \<Rightarrow> nat \<Rightarrow> real \<Rightarrow> nat \<Rightarrow> nat \<Rightarrow> real" where
  "lower_band num states n_units percent layer u =
     (let c = unit_values states n_units layer u
      in fl_sub num (fl_mean num c) (fl_percentile num c (lower_rank num percent)))"

definition upper_band :: "numerics \<Rightarrow> ndarray list \<Rightarrow> nat \<Rightarrow> real \<Rightarrow> nat \<Rightarrow> nat \<Rightarrow> real" where
  "upper_band num states n_units percent layer u =
     (let c = unit_values states n_units layer u
      in fl_sub num (fl_percentile num c (upper_rank num percent)) (fl_mean num c))"

text \<open>
  Five records of one layer with one unit, whose values are 0, 10, 10, 10 and 10.
  Their sum 40, their mean 8, their percentiles at the ranks 25 and 75 (both 10) and
  the differences 8 - 10 and 10 - 8 are floats, so float64 computes them without
  rounding.
\<close>

definition skewed_states :: "ndarray list" where
  "skewed_states = map (\<lambda>x. \<lparr>shape = [1, 1], data = [x]\<rparr>) [0, 10, 10, 10, 10]"

section \<open>The names of the cache files\<close>

text \<open>
  \<^verbatim>\<open>
  def get_state_signature(data_name, model_name, state_name, layer=None, sample_size=5000, dim=50):
      if layer is not None:
          if not isinstance(layer, list):
              layer = [layer]
      layer_str = 'all' if layer is None else ''.join([str(l) for l in layer])
      file_name = '-'.join([data_name, model_name, state_name, 'all' if layer is None else layer_str,
                            str(sample_size), str(dim) if dim is not None else str(sample_size)]) + '.pkl'
      file_name = get_path(_tmp_dir, file_name)
      ...

  def get_tsne_projection(data_name, model_name, state_name, layer=-1, sample_size=5000, dim=50, perplexity=40.0):
      assert isinstance(layer, int), "tsne projection of only one layer is reasonable"
      tmp_file = '-'.join([data_name, model_name, state_name, 'tsne',
                           str(layer), str(dim), str(int(perplexity))]) + '.pkl'
      tmp_file = get_path(_tmp_dir, tmp_file)
      ...
  \<close>
  The two functions are embedded up to the name of their cache file, the string that
  is handed to \<open>get_path\<close>. The layer selector is \<open>None\<close>, an integer or a list of
  integers; \<open>dim\<close> is an integer or \<open>None\<close>; the perplexity is a finite float, taken
  as a real number, and \<open>int\<close> cuts its fraction off (it rounds towards zero).
\<close>

definition layer_str :: "layer_sel option \<Rightarrow> string" where
  "layer_str layer =
     (case layer of None \<Rightarrow> ''all'' | Some l \<Rightarrow> concat (map str_int (layer_list l)))"

definition state_signature_file_name ::
  "string \<Rightarrow> string \<Rightarrow> string \<Rightarrow> layer_sel option \<Rightarrow> int \<Rightarrow> int option \<Rightarrow> string" where
  "state_signature_file_name data_name model_name state_name layer sample_size dim_opt =
     join ''-'' [data_name, model_name, state_name,
                 (case layer of None \<Rightarrow> ''all'' | Some _ \<Rightarrow> layer_str layer),
                 str_int sample_size,
                 (case dim_opt of Some d \<Rightarrow> str_int d | None \<Rightarrow> str_int sample_size)]
     @ ''.pkl''"

definition str_opt_int :: "int option \<Rightarrow> string" where
  "str_opt_int v = (case v of None \<Rightarrow> ''None'' | Some i \<Rightarrow> str_int i)"

definition int_of_float :: "real \<Rightarrow> int" where
  "int_of_float x = (if 0 \<le> x then \<lfloor>x\<rfloor> else \<lceil>x\<rceil>)"

definition tsne_projection_file_name ::
  "string \<Rightarrow> string \<Rightarrow> string \<Rightarrow> layer_sel option \<Rightarrow> int \<Rightarrow> int option \<Rightarrow> real \<Rightarrow>
     error + string" where
  "tsne_projection_file_name data_name model_name state_name layer sample_size dim_opt perplexity =
     (case layer of
        Some (LayerInt l) \<Rightarrow>
          Inr (join ''-'' [data_name, model_name, state_name, ''tsne'',
                           str_int l, str_opt_int dim_opt, str_int (int_of_float perplexity)]
               @ ''.pkl'')
      | _ \<Rightarrow> Inl AssertionError)"

section \<open>Properties of the grouper\<close>

lemma py_max_Max:
  assumes "xs \<noteq> []"
  shows "py_max xs = Inr (Max (set xs))"
proof (cases xs)
  case Nil
  with assms show ?thesis by simp
next
  case (Cons a list)
  have "fold max list a = Max (set (a # list))"
    by (simp only: Max.set_eq_fold)
  with Cons show ?thesis by (simp add: py_max_def)
qed

lemma states_at_Nil: "states_at [] states k j = []"
  by (simp add: states_at_def)

lemma states_at_Cons:
  assumes "k < length states"
  shows "states_at (i # ids) states k j =
           (if i = int j then [states ! k] else []) @ states_at ids states (Suc k) j"
proof -
  from assms have "drop k states = states ! k # drop (Suc k) states"
    by (simp add: Cons_nth_drop_Suc)
  then show ?thesis by (simp add: states_at_def)
qed

lemma sort_by_id_loop_spec:
  assumes "\<forall>i \<in> set ids. 0 \<le> i \<and> i < int (length b)"
    and "k + length ids \<le> length states"
  shows "\<exists>b'. sort_by_id_loop k ids states b = Inr b' \<and> length b' = length b \<and>
           (\<forall>j < length b. b' ! j =
              (if states_at ids states k j = [] then b ! j
               else Some (bucket_items (b ! j) @ states_at ids states k j)))"
  using assms
proof (induction ids arbitrary: k b)
  case Nil
  then show ?case by (simp add: states_at_Nil)
next
  case (Cons i ids)
  let ?j0 = "nat i"
  let ?b1 = "b[?j0 := Some (bucket_items (b ! ?j0) @ [states ! k])]"
  from Cons.prems have i: "0 \<le> i" "i < int (length b)" and k: "k < length states"
    by auto
  from i have idx: "py_index (length b) i = Inr ?j0"
    by (simp add: py_index_def)
  from Cons.prems have "\<forall>i \<in> set ids. 0 \<le> i \<and> i < int (length ?b1)"
    and "Suc k + length ids \<le> length states"
    by auto
  from Cons.IH [OF this] obtain b' where
    run: "sort_by_id_loop (Suc k) ids states ?b1 = Inr b'" and
    len: "length b' = length b" and
    cont: "\<forall>j < length b. b' ! j =
              (if states_at ids states (Suc k) j = [] then ?b1 ! j
               else Some (bucket_items (?b1 ! j) @ states_at ids states (Suc k) j))"
    by auto
  have "sort_by_id_loop k (i # ids) states b = Inr b'"
    using idx k run by simp
  moreover have "b' ! j =
      (if states_at (i # ids) states k j = [] then b ! j
       else Some (bucket_items (b ! j) @ states_at (i # ids) states k j))"
    if j: "j < length b" for j
  proof (cases "i = int j")
    case True
    with i have "?j0 = j" by simp
    with j cont True k show ?thesis
      by (simp add: states_at_Cons bucket_items_def)
  next
    case False
    with i have "?j0 \<noteq> j" by auto
    with j cont False k show ?thesis
      by (simp add: states_at_Cons)
  qed
  ultimately show ?case using len by blast
qed

lemma states_at_total:
  assumes "\<forall>i \<in> set ids. 0 \<le> i \<and> i < int n"
    and "k + length ids \<le> length states"
  shows "(\<Sum>j < n. length (states_at ids states k j)) = length ids"
  using assms
proof (induction ids arbitrary: k)
  case Nil
  then show ?case by (simp add: states_at_Nil)
next
  case (Cons i ids)
  from Cons.prems have i: "0 \<le> i" "i < int n" and k: "k < length states"
    by auto
  from Cons.prems have "(\<Sum>j < n. length (states_at ids states (Suc k) j)) = length ids"
    by (intro Cons.IH) auto
  moreover have "(\<Sum>j < n. if i = int j then 1 else 0 :: nat) = 1"
  proof -
    have "(\<Sum>j < n. if i = int j then 1 else 0 :: nat) = (\<Sum>j < n. if j = nat i then 1 else 0)"
      using i by (intro sum.cong) auto
    also have "\<dots> = 1" using i by simp
    finally show ?thesis .
  qed
  moreover have "length (states_at (i # ids) states k j) =
      (if i = int j then 1 else 0) + length (states_at ids states (Suc k) j)" for j
    using k by (simp add: states_at_Cons)
  ultimately show ?case by (simp add: sum.distrib)
qed

lemma states_at_empty_iff:
  assumes "length ids \<le> length states"
  shows "states_at ids states 0 j = [] \<longleftrightarrow> int j \<notin> set ids"
proof -
  have "set (map fst (zip ids states)) = set ids"
    using assms by (simp add: map_fst_zip_take)
  then have "int j \<in> set ids \<longleftrightarrow> (\<exists>p \<in> set (zip ids states). fst p = int j)"
    by (metis (no_types, lifting) image_iff set_map)
  then show ?thesis
    by (auto simp: states_at_def filter_empty_conv)
qed

lemma sort_by_id_run:
  assumes "word_ids \<noteq> []"
    and "\<forall>i \<in> set word_ids. 0 \<le> i"
    and "length word_ids \<le> length states"
  shows "\<exists>b. sort_by_id word_ids states = Inr b \<and>
           int (length b) = Max (set word_ids) + 1 \<and>
           (\<forall>j < length b. b ! j =
              (if int j \<in> set word_ids then Some (states_at word_ids states 0 j) else None))"
proof -
  let ?m = "Max (set word_ids)"
  let ?b0 = "replicate (nat (?m + 1)) None :: 'a list option list"
  from assms(1) have "?m \<in> set word_ids" by (intro Max_in) auto
  with assms(2) have m: "0 \<le> ?m" by blast
  have "i \<le> ?m" if "i \<in> set word_ids" for i
    using that by simp
  then have "\<forall>i \<in> set word_ids. 0 \<le> i \<and> i < int (length ?b0)"
    using assms(2) m by fastforce
  moreover have "0 + length word_ids \<le> length states"
    using assms(3) by simp
  ultimately obtain b' where
    run: "sort_by_id_loop 0 word_ids states ?b0 = Inr b'" and
    len: "length b' = length ?b0" and
    cont: "\<forall>j < length ?b0. b' ! j =
              (if states_at word_ids states 0 j = [] then ?b0 ! j
               else Some (bucket_items (?b0 ! j) @ states_at word_ids states 0 j))"
    using sort_by_id_loop_spec [of word_ids ?b0 0 states] by blast
  have "sort_by_id word_ids states = Inr b'"
    using run assms(1) by (simp add: sort_by_id_def py_max_Max bindE_def)
  moreover have "int (length b') = ?m + 1"
    using len m by simp
  moreover have "b' ! j =
      (if int j \<in> set word_ids then Some (states_at word_ids states 0 j) else None)"
    if "j < length b'" for j
    using that cont len states_at_empty_iff [OF assms(3), of j]
    by (simp add: bucket_items_def)
  ultimately show ?thesis by blast
qed

section \<open>Claims about the grouper\<close>

text \<open>
  Claim C7. For a non-empty sequence of (word id, state) pairs with every id at least 0,
  \<open>sort_by_id\<close> returns a bucket list in which the bucket sizes add up to the length of
  the input, every record's id has a bucket, the bucket of an id that occurs holds
  exactly the states recorded at that id (in timestep order), and the bucket of an id
  that does not occur is \<open>None\<close>. So every record sits in exactly one bucket, the one of
  its id, and no absent id raises an error.
\<close>

theorem sort_by_id_partitions_records:
  assumes "word_ids \<noteq> []"
    and "\<forall>i \<in> set word_ids. 0 \<le> i"
    and "length states = length word_ids"
  shows "\<exists>b. sort_by_id word_ids states = Inr b \<and>
           sum_list (map bucket_size b) = length word_ids \<and>
           (\<forall>k < length word_ids. nat (word_ids ! k) < length b) \<and>
           (\<forall>j < length b. b ! j =
              (if int j \<in> set word_ids
               then Some (map snd (filter (\<lambda>p. fst p = int j) (zip word_ids states)))
               else None))"
proof -
  from assms obtain b where
    run: "sort_by_id word_ids states = Inr b" and
    len: "int (length b) = Max (set word_ids) + 1" and
    cont: "\<forall>j < length b. b ! j =
              (if int j \<in> set word_ids then Some (states_at word_ids states 0 j) else None)"
    using sort_by_id_run [of word_ids states] by auto
  have range: "\<forall>i \<in> set word_ids. 0 \<le> i \<and> i < int (length b)"
    using assms(2) len by (auto simp: less_Suc_eq_le)
  have size: "bucket_size (b ! j) = length (states_at word_ids states 0 j)"
    if "j < length b" for j
    using that cont states_at_empty_iff [of word_ids states j] assms(3)
    by (simp add: bucket_size_def bucket_items_def)
  have "sum_list (map bucket_size b) = (\<Sum>j < length b. bucket_size (b ! j))"
    by (simp add: sum_list_sum_nth atLeast0LessThan)
  also have "\<dots> = (\<Sum>j < length b. length (states_at word_ids states 0 j))"
    using size by (intro sum.cong) auto
  also have "\<dots> = length word_ids"
    using range assms(3) by (intro states_at_total) auto
  finally have total: "sum_list (map bucket_size b) = length word_ids" .
  have "nat (word_ids ! k) < length b" if "k < length word_ids" for k
    using that range by (metis nat_less_iff nth_mem)
  with run total cont show ?thesis
    by (auto simp: states_at_def)
qed

theorem sort_by_id_partitions_records_witness:
  "[5, 5, 7 :: int] \<noteq> [] \<and> list_all (\<lambda>i. 0 \<le> i) [5, 5, 7 :: int] \<and>
   length [10, 20, 30 :: nat] = length [5, 5, 7 :: int] \<and>
   (\<exists>b. sort_by_id [5, 5, 7] [10, 20, 30 :: nat] = Inr b \<and>
        sum_list (map bucket_size b) = 3 \<and>
        b ! 4 = None \<and> b ! 5 = Some [10, 20] \<and> b ! 7 = Some [30])"
proof -
  obtain b where
    run: "sort_by_id [5, 5, 7] [10, 20, 30 :: nat] = Inr b" and
    total: "sum_list (map bucket_size b) = length [5, 5, 7 :: int]" and
    len: "\<forall>k < length [5, 5, 7 :: int]. nat ([5, 5, 7 :: int] ! k) < length b" and
    cont: "\<forall>j < length b. b ! j =
              (if int j \<in> set [5, 5, 7 :: int]
               then Some (map snd (filter (\<lambda>p. fst p = int j)
                      (zip [5, 5, 7 :: int] [10, 20, 30 :: nat])))
               else None)"
    using sort_by_id_partitions_records [of "[5, 5, 7]" "[10, 20, 30 :: nat]"] by auto
  from len have "7 < length b" by (auto dest: spec [of _ 2])
  with cont have "b ! 4 = None" "b ! 5 = Some [10, 20]" "b ! 7 = Some [30]"
    by auto
  with run total show ?thesis by simp
qed

text \<open>
  Claim C10. \<open>sort_by_id\<close> raises on the empty id sequence (\<open>max\<close> of an empty
  sequence is a \<open>ValueError\<close>) and returns no mapping there; on a non-empty sequence of
  non-negative ids with a state for every id it returns a bucket list of length
  \<open>max(word_ids) + 1\<close>.
\<close>

theorem sort_by_id_needs_nonempty:
  "sort_by_id [] states = Inl (ValueError ''max() arg is an empty sequence'') \<and>
   (word_ids \<noteq> [] \<and> (\<forall>i \<in> set word_ids. 0 \<le> i) \<and> length word_ids \<le> length states \<longrightarrow>
      (\<exists>b. sort_by_id word_ids states = Inr b \<and> int (length b) = Max (set word_ids) + 1))"
proof -
  have "sort_by_id [] states = Inl (ValueError ''max() arg is an empty sequence'')"
    by (simp add: sort_by_id_def py_max_def bindE_def)
  moreover have "\<exists>b. sort_by_id word_ids states = Inr b \<and>
      int (length b) = Max (set word_ids) + 1"
    if "word_ids \<noteq> []" "\<forall>i \<in> set word_ids. 0 \<le> i" "length word_ids \<le> length states"
    using sort_by_id_run [OF that] by blast
  ultimately show ?thesis by blast
qed

theorem sort_by_id_needs_nonempty_witness:
  "sort_by_id [] [10 :: nat] = Inl (ValueError ''max() arg is an empty sequence'') \<and>
   [5, 5, 7 :: int] \<noteq> [] \<and> list_all (\<lambda>i. 0 \<le> i) [5, 5, 7 :: int] \<and>
   length [5, 5, 7 :: int] \<le> length [10, 20, 30 :: nat] \<and>
   (\<exists>b. sort_by_id [5, 5, 7] [10, 20, 30 :: nat] = Inr b \<and> int (length b) = 8)"
  using sort_by_id_needs_nonempty [of "[10 :: nat]" "[5, 5, 7]"]
    sort_by_id_needs_nonempty [of "[10, 20, 30 :: nat]" "[5, 5, 7]"]
  by simp

section \<open>Properties of the serializer\<close>

lemma block_start_0: "block_start nums 0 = 0"
  by (simp add: block_start_def)

lemma block_start_Suc: "block_start (n # nums) (Suc j) = nat n + block_start nums j"
  by (simp add: block_start_def)

lemma expand_states_num_length:
  "length (fst (expand_states_num i nums L S)) = length L + block_start nums (length nums) \<and>
   length (snd (expand_states_num i nums L S)) = length S + block_start nums (length nums)"
  by (induction nums arbitrary: i L S) (simp_all add: block_start_def)

lemma expand_states_num_prefix:
  "k < length L \<Longrightarrow> fst (expand_states_num i nums L S) ! k = L ! k"
  "k < length S \<Longrightarrow> snd (expand_states_num i nums L S) ! k = S ! k"
  by (induction nums arbitrary: i L S) (simp_all add: nth_append)

lemma expand_states_num_block:
  assumes "j < length nums" and "t < nat (nums ! j)" and "length S = length L"
  shows "fst (expand_states_num i nums L S) ! (length L + block_start nums j + t) = int (i + j) + 1 \<and>
         snd (expand_states_num i nums L S) ! (length L + block_start nums j + t) = int t"
  using assms
proof (induction nums arbitrary: i j L S)
  case Nil
  then show ?case by simp
next
  case (Cons n nums)
  let ?L = "L @ replicate (nat n) (int i + 1)"
  let ?S = "S @ map int [0..<nat n]"
  show ?case
  proof (cases j)
    case 0
    with Cons.prems have t: "t < nat n" by simp
    then have "length L + t < length ?L" "length L + t < length ?S"
      using Cons.prems(3) by simp_all
    then have "fst (expand_states_num (Suc i) nums ?L ?S) ! (length L + t) = ?L ! (length L + t)"
      and "snd (expand_states_num (Suc i) nums ?L ?S) ! (length L + t) = ?S ! (length L + t)"
      by (simp_all only: expand_states_num_prefix)
    moreover have "?L ! (length L + t) = int i + 1"
      using t by (simp add: nth_append)
    moreover have "?S ! (length L + t) = int t"
      using t Cons.prems(3) by (simp add: nth_append)
    ultimately show ?thesis using 0 by (simp add: block_start_0)
  next
    case (Suc j')
    with Cons.prems have "j' < length nums" "t < nat (nums ! j')" "length ?S = length ?L"
      by simp_all
    from Cons.IH [OF this, of "Suc i"] show ?thesis
      using Suc by (simp add: block_start_Suc add.assoc)
  qed
qed

lemma block_cover:
  assumes "k < block_start nums (length nums)"
  shows "\<exists>j < length nums. \<exists>t < nat (nums ! j). k = block_start nums j + t"
  using assms
proof (induction nums arbitrary: k)
  case Nil
  then show ?case by (simp add: block_start_def)
next
  case (Cons n nums)
  show ?case
  proof (cases "k < nat n")
    case True
    then have "0 < length (n # nums) \<and> k < nat ((n # nums) ! 0) \<and>
        k = block_start (n # nums) 0 + k"
      by (simp add: block_start_0)
    then show ?thesis by blast
  next
    case False
    with Cons.prems have "k - nat n < block_start nums (length nums)"
      by (simp add: block_start_Suc)
    from Cons.IH [OF this] obtain j t where
      "j < length nums" "t < nat (nums ! j)" "k - nat n = block_start nums j + t"
      by blast
    with False have "Suc j < length (n # nums) \<and> t < nat ((n # nums) ! Suc j) \<and>
        k = block_start (n # nums) (Suc j) + t"
      by (simp add: block_start_Suc)
    then show ?thesis by blast
  qed
qed

lemma make_points_spec:
  assumes "i + length solution \<le> length layers"
    and "i + length solution \<le> length state_ids"
    and "i + length solution \<le> length labels"
  shows "\<exists>points. make_points i solution layers state_ids labels = Inr points \<and>
           length points = length solution \<and>
           (\<forall>k < length solution. points ! k =
              \<lparr>pt_coords = solution ! k, pt_layer = layers ! (i + k),
               pt_state_id = state_ids ! (i + k), pt_label = labels ! (i + k)\<rparr>)"
  using assms
proof (induction solution arbitrary: i)
  case Nil
  then show ?case by simp
next
  case (Cons s solution)
  from Cons.prems have "Suc i + length solution \<le> length layers"
    "Suc i + length solution \<le> length state_ids" "Suc i + length solution \<le> length labels"
    by simp_all
  from Cons.IH [OF this] obtain points where
    run: "make_points (Suc i) solution layers state_ids labels = Inr points" and
    len: "length points = length solution" and
    cont: "\<forall>k < length solution. points ! k =
              \<lparr>pt_coords = solution ! k, pt_layer = layers ! (Suc i + k),
               pt_state_id = state_ids ! (Suc i + k), pt_label = labels ! (Suc i + k)\<rparr>"
    by blast
  let ?p = "\<lparr>pt_coords = s, pt_layer = layers ! i,
             pt_state_id = state_ids ! i, pt_label = labels ! i\<rparr>"
  have "make_points i (s # solution) layers state_ids labels = Inr (?p # points)"
    using Cons.prems run by (simp add: bindE_def)
  moreover have "(?p # points) ! k =
      \<lparr>pt_coords = (s # solution) ! k, pt_layer = layers ! (i + k),
       pt_state_id = state_ids ! (i + k), pt_label = labels ! (i + k)\<rparr>"
    if "k < length (s # solution)" for k
    using that cont by (cases k) simp_all
  ultimately show ?case using len by auto
qed

lemma sum_list_le_nat: "sum_list nums \<le> int (sum_list (map nat nums))"
  by (induction nums) auto

lemma solution2json_points_fixed:
  assumes "length (solution :: 'c list) = 5"
    and "case labels of None \<Rightarrow> True | Some ls \<Rightarrow> length solution \<le> length ls"
  shows "\<exists>points. solution2json_points solution [3, 2] labels = Inr points \<and>
           map (\<lambda>p. (pt_layer p, pt_state_id p)) points =
             [(1, 0), (1, 1), (1, 2), (2, 0), (2, 1)]"
proof -
  from assms(1) obtain a b c d e where sol: "solution = [a, b, c, d, e]"
    by (auto simp: length_Suc_conv eval_nat_numeral)
  show ?thesis
  proof (cases labels)
    case None
    then show ?thesis
      by (simp add: solution2json_points_def sol bindE_def eval_nat_numeral upt_rec)
  next
    case (Some ls)
    with assms sol have "5 \<le> length ls" by simp
    then show ?thesis using Some
      by (auto simp: solution2json_points_def sol bindE_def eval_nat_numeral upt_rec)
  qed
qed

section \<open>Claim about the serializer\<close>

text \<open>
  Claim C8. When the entries of \<open>states_num\<close> sum to the length of the solution (and
  the labels, if given, cover the solution), \<open>solution2json\<close> hands one point per
  solution row to \<open>dict2json\<close>; the point at offset \<open>t\<close> of the block of layer \<open>j\<close>
  (blocks laid out in \<open>states_num\<close> order) has layer \<open>j + 1\<close> and state id \<open>t\<close>, and
  every point lies in such a block. For \<open>states_num = [3, 2]\<close> and a solution of
  length 5 the (layer, state_id) sequence is \<open>[(1,0),(1,1),(1,2),(2,0),(2,1)]\<close>.
\<close>

theorem solution2json_layer_state_id:
  assumes "sum_list states_num = int (length solution)"
    and "case labels of None \<Rightarrow> True | Some ls \<Rightarrow> length solution \<le> length ls"
  shows "\<exists>points.
           solution2json dict2json solution states_num labels path = Inr (dict2json points path) \<and>
           solution2json_points solution states_num labels = Inr points \<and>
           length points = length solution \<and>
           (\<forall>j < length states_num. \<forall>t < nat (states_num ! j).
              block_start states_num j + t < length solution \<longrightarrow>
              pt_layer (points ! (block_start states_num j + t)) = int j + 1 \<and>
              pt_state_id (points ! (block_start states_num j + t)) = int t) \<and>
           (\<forall>i < length solution. \<exists>j < length states_num. \<exists>t < nat (states_num ! j).
              i = block_start states_num j + t) \<and>
           (states_num = [3, 2] \<longrightarrow>
              map (\<lambda>p. (pt_layer p, pt_state_id p)) points =
                [(1, 0), (1, 1), (1, 2), (2, 0), (2, 1)])"
proof -
  let ?labels = "case labels of None \<Rightarrow> replicate (length solution) 0 | Some ls \<Rightarrow> ls"
  let ?e = "expand_states_num 0 states_num [] []"
  let ?total = "block_start states_num (length states_num)"
  have lenL: "length (fst ?e) = ?total" and lenS: "length (snd ?e) = ?total"
    using expand_states_num_length [of 0 states_num "[]" "[]"] by simp_all
  have total: "length solution \<le> ?total"
    using assms(1) sum_list_le_nat [of states_num] by (simp add: block_start_def)
  have labels: "length solution \<le> length ?labels"
    using assms(2) by (cases labels) simp_all
  obtain points where
    run: "make_points 0 solution (fst ?e) (snd ?e) ?labels = Inr points" and
    len: "length points = length solution" and
    cont: "\<forall>k < length solution. points ! k =
              \<lparr>pt_coords = solution ! k, pt_layer = fst ?e ! (0 + k),
               pt_state_id = snd ?e ! (0 + k), pt_label = ?labels ! (0 + k)\<rparr>"
    using make_points_spec [of 0 solution "fst ?e" "snd ?e" ?labels] lenL lenS total labels
    by auto
  have pts: "solution2json_points solution states_num labels = Inr points"
    using run by (simp add: solution2json_points_def case_prod_unfold)
  then have json: "solution2json dict2json solution states_num labels path =
      Inr (dict2json points path)"
    by (simp add: solution2json_def bindE_def)
  have block: "pt_layer (points ! (block_start states_num j + t)) = int j + 1 \<and>
      pt_state_id (points ! (block_start states_num j + t)) = int t"
    if "j < length states_num" "t < nat (states_num ! j)"
      "block_start states_num j + t < length solution" for j t
    using expand_states_num_block [of j states_num t "[]" "[]" 0] that cont by simp
  have cover: "\<exists>j < length states_num. \<exists>t < nat (states_num ! j).
      i = block_start states_num j + t" if "i < length solution" for i
    using that total by (intro block_cover) simp
  have fixed: "map (\<lambda>p. (pt_layer p, pt_state_id p)) points =
      [(1, 0), (1, 1), (1, 2), (2, 0), (2, 1)]" if "states_num = [3, 2]"
  proof -
    from that assms(1) have "length solution = 5" by simp
    from solution2json_points_fixed [OF this assms(2)] pts that show ?thesis by simp
  qed
  have b: "\<forall>j < length states_num. \<forall>t < nat (states_num ! j).
              block_start states_num j + t < length solution \<longrightarrow>
              pt_layer (points ! (block_start states_num j + t)) = int j + 1 \<and>
              pt_state_id (points ! (block_start states_num j + t)) = int t"
    using block by blast
  have c: "\<forall>i < length solution. \<exists>j < length states_num. \<exists>t < nat (states_num ! j).
              i = block_start states_num j + t"
    using cover by blast
  have f: "states_num = [3, 2] \<longrightarrow>
              map (\<lambda>p. (pt_layer p, pt_state_id p)) points =
                [(1, 0), (1, 1), (1, 2), (2, 0), (2, 1)]"
    using fixed by (rule impI)
  show ?thesis
    by (rule exI [of _ points]) (intro conjI json pts len b c f)
qed


theorem solution2json_layer_state_id_witness:
  "sum_list [3, 2] = int (length ''abcde'') \<and>
   (\<exists>points. solution2json_points ''abcde'' [3, 2] None = Inr points \<and>
      length points = 5 \<and>
      map (\<lambda>p. (pt_layer p, pt_state_id p)) points =
        [(1, 0), (1, 1), (1, 2), (2, 0), (2, 1)])"
proof
  show sum: "sum_list [3, 2] = int (length ''abcde'')" by simp
  show "\<exists>points. solution2json_points ''abcde'' [3, 2] None = Inr points \<and>
      length points = 5 \<and>
      map (\<lambda>p. (pt_layer p, pt_state_id p)) points =
        [(1, 0), (1, 1), (1, 2), (2, 0), (2, 1)]"
    using solution2json_layer_state_id [OF sum, of None "\<lambda>points (path :: unit). points" "()"]
    apply simp
    apply (elim exE conjE)
    apply (rule_tac x = points in exI)
    apply simp
    done
qed

section \<open>Properties of the fetcher and the differencer\<close>

lemma mapE_map:
  assumes "\<forall>x \<in> set xs. f x = Inr (g x)"
  shows "mapE f xs = Inr (map g xs)"
  using assms by (induction xs) (simp_all add: bindE_def)

lemma mapE_Inr_nth:
  assumes "mapE f xs = Inr ys"
  shows "length ys = length xs \<and> (\<forall>i < length xs. f (xs ! i) = Inr (ys ! i))"
  using assms
proof (induction xs arbitrary: ys)
  case Nil
  then show ?case by simp
next
  case (Cons x xs)
  from Cons.prems obtain y ys' where
    y: "f x = Inr y" and ys': "mapE f xs = Inr ys'" and ys: "ys = y # ys'"
    by (auto simp: bindE_def split: sum.splits)
  from Cons.IH [OF ys'] have
    "length ys' = length xs" "\<forall>i < length xs. f (xs ! i) = Inr (ys' ! i)"
    by simp_all
  with y ys show ?case by (auto simp: nth_Cons split: nat.splits)
qed

lemma read_field_present:
  assumes "\<forall>r \<in> set records. state_fields r field \<noteq> None"
  shows "read_field records field = Inr (map (\<lambda>r. the (state_fields r field)) records)"
  unfolding read_field_def using assms by (intro mapE_map) auto

lemma cal_diff_spec:
  assumes "\<forall>t. Suc t < length xs \<longrightarrow> (\<exists>d. sub (xs ! Suc t) (xs ! t) = Inr d)"
  shows "\<exists>ds. cal_diff sub xs = Inr ds \<and> length ds = length xs - 1 \<and>
           (\<forall>t. Suc t < length xs \<longrightarrow> sub (xs ! Suc t) (xs ! t) = Inr (ds ! t))"
  using assms
proof (induction sub xs rule: cal_diff.induct)
  case (1 sub a b arrays)
  from "1.prems" [rule_format, of 0] obtain d where d: "sub b a = Inr d" by auto
  have "\<forall>t. Suc t < length (b # arrays) \<longrightarrow>
      (\<exists>d. sub ((b # arrays) ! Suc t) ((b # arrays) ! t) = Inr d)"
    using "1.prems" [rule_format, of "Suc t" for t] by simp
  from "1.IH" [OF this] obtain ds where
    run: "cal_diff sub (b # arrays) = Inr ds" and
    len: "length ds = length (b # arrays) - 1" and
    cont: "\<forall>t. Suc t < length (b # arrays) \<longrightarrow>
             sub ((b # arrays) ! Suc t) ((b # arrays) ! t) = Inr (ds ! t)"
    by blast
  have "cal_diff sub (a # b # arrays) = Inr (d # ds)"
    using d run by (simp add: bindE_def)
  moreover have "length (d # ds) = length (a # b # arrays) - 1"
    using len by simp
  moreover have "sub ((a # b # arrays) ! Suc t) ((a # b # arrays) ! t) = Inr ((d # ds) ! t)"
    if "Suc t < length (a # b # arrays)" for t
    using that d cont by (cases t) simp_all
  ultimately show ?case by blast
qed simp_all

lemma keep_first_then_diff_spec:
  assumes "state \<noteq> []"
    and "\<forall>t. Suc t < length state \<longrightarrow> (\<exists>d. sub (state ! Suc t) (state ! t) = Inr d)"
  shows "\<exists>seq. keep_first_then_diff sub state = Inr seq \<and> length seq = length state \<and>
           seq ! 0 = state ! 0 \<and>
           (\<forall>i. 1 \<le> i \<and> i < length state \<longrightarrow> sub (state ! i) (state ! (i - 1)) = Inr (seq ! i))"
proof -
  from cal_diff_spec [OF assms(2)] obtain ds where
    run: "cal_diff sub state = Inr ds" and
    len: "length ds = length state - 1" and
    cont: "\<forall>t. Suc t < length state \<longrightarrow> sub (state ! Suc t) (state ! t) = Inr (ds ! t)"
    by blast
  from assms(1) obtain s0 rest where state: "state = s0 # rest" by (cases state) auto
  have "keep_first_then_diff sub state = Inr (s0 # ds)"
    using run state by (simp add: keep_first_then_diff_def bindE_def)
  moreover have "length (s0 # ds) = length state"
    using len state by simp
  moreover have "(s0 # ds) ! 0 = state ! 0"
    using state by simp
  moreover have "sub (state ! i) (state ! (i - 1)) = Inr ((s0 # ds) ! i)"
    if "1 \<le> i \<and> i < length state" for i
  proof -
    from that obtain t where "i = Suc t" by (cases i) auto
    with that cont show ?thesis by simp
  qed
  ultimately show ?thesis by blast
qed

lemma fetch_fields_spec:
  assumes "\<forall>f \<in> set names. \<forall>r \<in> set records. state_fields r f \<noteq> None"
    and "i + length names \<le> length flags"
    and "\<forall>j < length names. flags ! (i + j) \<longrightarrow>
           (\<exists>seq. keep_first_then_diff sub
              (map (\<lambda>r. the (state_fields r (names ! j))) records) = Inr seq)"
  shows "\<exists>states. fetch_fields sub records i names flags = Inr states \<and>
           length states = length names \<and>
           (\<forall>j < length names.
              if flags ! (i + j)
              then keep_first_then_diff sub
                     (map (\<lambda>r. the (state_fields r (names ! j))) records) = Inr (states ! j)
              else states ! j = map (\<lambda>r. the (state_fields r (names ! j))) records)"
  using assms
proof (induction names arbitrary: i)
  case Nil
  then show ?case by simp
next
  case (Cons field names)
  let ?col = "\<lambda>f. map (\<lambda>r. the (state_fields r f)) records"
  have read: "read_field records field = Inr (?col field)"
    using Cons.prems(1) by (intro read_field_present) simp
  from Cons.prems(2) have i: "i < length flags" by simp
  obtain state' where state':
    "(if flags ! i then keep_first_then_diff sub (?col field) else Inr (?col field)) = Inr state'"
    using Cons.prems(3) [rule_format, of 0] by (cases "flags ! i") auto
  have "\<forall>f \<in> set names. \<forall>r \<in> set records. state_fields r f \<noteq> None"
    using Cons.prems(1) by simp
  moreover have "Suc i + length names \<le> length flags"
    using Cons.prems(2) by simp
  moreover have "\<forall>j < length names. flags ! (Suc i + j) \<longrightarrow>
      (\<exists>seq. keep_first_then_diff sub (?col (names ! j)) = Inr seq)"
    using Cons.prems(3) [rule_format, of "Suc j" for j] by simp
  ultimately obtain states where
    run: "fetch_fields sub records (Suc i) names flags = Inr states" and
    len: "length states = length names" and
    cont: "\<forall>j < length names.
              if flags ! (Suc i + j)
              then keep_first_then_diff sub (?col (names ! j)) = Inr (states ! j)
              else states ! j = ?col (names ! j)"
    using Cons.IH [of "Suc i"] by blast
  have "fetch_fields sub records i (field # names) flags = Inr (state' # states)"
    using read i state' run by (simp add: bindE_def)
  moreover have "length (state' # states) = length (field # names)"
    using len by simp
  moreover have "if flags ! (i + j)
      then keep_first_then_diff sub (?col ((field # names) ! j)) = Inr ((state' # states) ! j)
      else (state' # states) ! j = ?col ((field # names) ! j)"
    if "j < length (field # names)" for j
  proof (cases j)
    case 0
    with state' show ?thesis by (simp split: if_splits)
  next
    case (Suc j')
    with that cont [rule_format, of j'] show ?thesis by simp
  qed
  ultimately show ?case by blast
qed

section \<open>Claim about the differencer\<close>

text \<open>
  Claim C1. Let the evaluation have a non-empty record sequence in which every
  requested field is present, let there be a flag for every field, and let the
  subtractions of consecutive states succeed in the fields whose flag is set. Then
  \<open>fetch_state_of_eval\<close> returns, and for a field \<open>k\<close> with the flag set the returned
  sequence is as long as the record sequence, starts with the first state unchanged,
  and has at every position \<open>i \<ge> 1\<close> the difference of state \<open>i\<close> and state \<open>i - 1\<close>.
\<close>

theorem fetch_state_of_eval_keeps_first_then_diffs:
  assumes "query_evaluation_records sv eval_id = records"
    and "records \<noteq> []"
    and "normalize_fields field_name diff = Inr (names, flags)"
    and "length names \<le> length flags"
    and "\<forall>f \<in> set names. \<forall>r \<in> set records. state_fields r f \<noteq> None"
    and "\<forall>j < length names. flags ! j \<longrightarrow>
           (\<forall>t. Suc t < length records \<longrightarrow>
              (\<exists>d. sub (the (state_fields (records ! Suc t) (names ! j)))
                        (the (state_fields (records ! t) (names ! j))) = Inr d))"
    and "k < length names"
    and "flags ! k"
  shows "\<exists>states.
           fetch_state_of_eval sub sv eval_id field_name diff w =
             (Inr (map word_id records, states),
              record_event (QueryEvaluationRecords eval_id) w) \<and>
           length (field_sequence states k) = length records \<and>
           field_sequence states k ! 0 = the (state_fields (records ! 0) (names ! k)) \<and>
           (\<forall>i. 1 \<le> i \<and> i < length records \<longrightarrow>
              sub (the (state_fields (records ! i) (names ! k)))
                  (the (state_fields (records ! (i - 1)) (names ! k))) =
                Inr (field_sequence states k ! i))"
proof -
  let ?col = "\<lambda>f. map (\<lambda>r. the (state_fields r f)) records"
  have kfd: "\<exists>seq. keep_first_then_diff sub (?col (names ! j)) = Inr seq \<and>
      length seq = length records \<and>
      seq ! 0 = the (state_fields (records ! 0) (names ! j)) \<and>
      (\<forall>i. 1 \<le> i \<and> i < length records \<longrightarrow>
         sub (the (state_fields (records ! i) (names ! j)))
             (the (state_fields (records ! (i - 1)) (names ! j))) = Inr (seq ! i))"
    if j: "j < length names" "flags ! j" for j
  proof -
    have "?col (names ! j) \<noteq> []" using assms(2) by simp
    moreover have "\<forall>t. Suc t < length (?col (names ! j)) \<longrightarrow>
        (\<exists>d. sub (?col (names ! j) ! Suc t) (?col (names ! j) ! t) = Inr d)"
      using assms(6) j by simp
    ultimately obtain seq where
      "keep_first_then_diff sub (?col (names ! j)) = Inr seq"
      "length seq = length (?col (names ! j))"
      "seq ! 0 = ?col (names ! j) ! 0"
      "\<forall>i. 1 \<le> i \<and> i < length (?col (names ! j)) \<longrightarrow>
         sub (?col (names ! j) ! i) (?col (names ! j) ! (i - 1)) = Inr (seq ! i)"
      using keep_first_then_diff_spec [of "?col (names ! j)" sub] by blast
    with assms(2) show ?thesis by (auto simp: less_imp_diff_less)
  qed
  have "\<forall>j < length names. flags ! (0 + j) \<longrightarrow>
      (\<exists>seq. keep_first_then_diff sub (?col (names ! j)) = Inr seq)"
    using kfd by auto
  with assms(4,5) obtain states where
    run: "fetch_fields sub records 0 names flags = Inr states" and
    len: "length states = length names" and
    cont: "\<forall>j < length names.
              if flags ! (0 + j)
              then keep_first_then_diff sub (?col (names ! j)) = Inr (states ! j)
              else states ! j = ?col (names ! j)"
    using fetch_fields_spec [of names records 0 flags sub] by auto
  let ?out = "case states of [state] \<Rightarrow> Single state | _ \<Rightarrow> Multi states"
  have out: "fetch_state_of_eval sub sv eval_id field_name diff w =
      (Inr (map word_id records, ?out), record_event (QueryEvaluationRecords eval_id) w)"
    using assms(1,3) run by (simp add: fetch_state_of_eval_def bindE_def)
  have seq: "field_sequence ?out k = states ! k"
  proof (cases states)
    case Nil
    with len assms(7) show ?thesis by simp
  next
    case (Cons s rest)
    from len assms(7) have "k < length states" by simp
    with Cons show ?thesis by (cases rest) simp_all
  qed
  from cont assms(7,8) have "keep_first_then_diff sub (?col (names ! k)) = Inr (states ! k)"
    by auto
  with kfd [OF assms(7,8)] have
    "length (states ! k) = length records"
    "(states ! k) ! 0 = the (state_fields (records ! 0) (names ! k))"
    "\<forall>i. 1 \<le> i \<and> i < length records \<longrightarrow>
       sub (the (state_fields (records ! i) (names ! k)))
           (the (state_fields (records ! (i - 1)) (names ! k))) = Inr ((states ! k) ! i)"
    by auto
  with out seq show ?thesis
    by (intro exI [of _ ?out]) (simp only: simp_thms)
qed

theorem fetch_state_of_eval_keeps_first_then_diffs_witness:
  "\<exists>states.
     fetch_state_of_eval (\<lambda>a b. Inr (a - b))
       \<lparr>query_evals = (\<lambda>d m. [0]),
        query_evaluation_records = (\<lambda>e.
          [\<lparr>word_id = 5, state_fields = [''state_c'' \<mapsto> 3 :: int]\<rparr>,
           \<lparr>word_id = 5, state_fields = [''state_c'' \<mapsto> 10]\<rparr>,
           \<lparr>word_id = 7, state_fields = [''state_c'' \<mapsto> 4]\<rparr>]),
        get_path = (\<lambda>d f. d @ ''/'' @ f)\<rparr>
       0 (FieldName ''state_c'') (DiffFlag True) \<lparr>files = Map.empty, io_trace = []\<rparr> =
       (Inr ([5, 5, 7], states),
        \<lparr>files = Map.empty, io_trace = [QueryEvaluationRecords 0]\<rparr>) \<and>
     length (field_sequence states 0) = 3 \<and>
     field_sequence states 0 ! 0 = 3 \<and>
     field_sequence states 0 ! 1 = 7 \<and>
     field_sequence states 0 ! 2 = - 6"
proof -
  let ?records = "[\<lparr>word_id = 5, state_fields = [''state_c'' \<mapsto> 3 :: int]\<rparr>,
           \<lparr>word_id = 5, state_fields = [''state_c'' \<mapsto> 10]\<rparr>,
           \<lparr>word_id = 7, state_fields = [''state_c'' \<mapsto> 4]\<rparr>]"
  let ?sv = "\<lparr>query_evals = (\<lambda>d m. [0 :: nat]),
        query_evaluation_records = (\<lambda>e :: nat. ?records),
        get_path = (\<lambda>d f. d @ ''/'' @ f)\<rparr>"
  let ?sub = "\<lambda>a b :: int. Inr (a - b) :: error + int"
  have "\<exists>states.
      fetch_state_of_eval ?sub ?sv 0 (FieldName ''state_c'') (DiffFlag True)
          \<lparr>files = Map.empty, io_trace = []\<rparr> =
        (Inr (map word_id ?records, states),
         record_event (QueryEvaluationRecords 0) \<lparr>files = Map.empty, io_trace = []\<rparr>) \<and>
      length (field_sequence states 0) = length ?records \<and>
      field_sequence states 0 ! 0 = the (state_fields (?records ! 0) ([''state_c''] ! 0)) \<and>
      (\<forall>i. 1 \<le> i \<and> i < length ?records \<longrightarrow>
         ?sub (the (state_fields (?records ! i) ([''state_c''] ! 0)))
              (the (state_fields (?records ! (i - 1)) ([''state_c''] ! 0))) =
           Inr (field_sequence states 0 ! i))"
    by (rule fetch_state_of_eval_keeps_first_then_diffs
          [where names = "[''state_c'']" and flags = "[True]"]) simp_all
  then obtain states where
    run: "fetch_state_of_eval ?sub ?sv 0 (FieldName ''state_c'') (DiffFlag True)
          \<lparr>files = Map.empty, io_trace = []\<rparr> =
        (Inr (map word_id ?records, states),
         record_event (QueryEvaluationRecords 0) \<lparr>files = Map.empty, io_trace = []\<rparr>)" and
    len: "length (field_sequence states 0) = length ?records" and
    first: "field_sequence states 0 ! 0 = the (state_fields (?records ! 0) ([''state_c''] ! 0))" and
    rest: "\<forall>i. 1 \<le> i \<and> i < length ?records \<longrightarrow>
         ?sub (the (state_fields (?records ! i) ([''state_c''] ! 0)))
              (the (state_fields (?records ! (i - 1)) ([''state_c''] ! 0))) =
           Inr (field_sequence states 0 ! i)"
    by (elim exE conjE)
  from rest [rule_format, of 1] have "field_sequence states 0 ! 1 = 7" by simp
  moreover from rest [rule_format, of 2] have "field_sequence states 0 ! 2 = - 6" by simp
  moreover from first have "field_sequence states 0 ! 0 = 3" by simp
  moreover from len have "length (field_sequence states 0) = 3" by simp
  moreover from run have "fetch_state_of_eval ?sub ?sv 0 (FieldName ''state_c'') (DiffFlag True)
          \<lparr>files = Map.empty, io_trace = []\<rparr> =
        (Inr ([5, 5, 7], states), \<lparr>files = Map.empty, io_trace = [QueryEvaluationRecords 0]\<rparr>)"
    by (simp add: record_event_def)
  ultimately show ?thesis by (intro exI [of _ states]) (simp only: simp_thms)
qed

section \<open>Properties of the strength aggregator\<close>

lemma mapE_total:
  assumes "\<forall>x \<in> set xs. \<exists>y. f x = Inr y"
  shows "\<exists>ys. mapE f xs = Inr ys"
  using assms by (induction xs) (auto simp: bindE_def)

lemma bindE_eq_Inl: "bindE m f = Inl e \<longleftrightarrow> m = Inl e \<or> (\<exists>x. m = Inr x \<and> f x = Inl e)"
  by (cases m) (simp_all add: bindE_def)

lemma bindE_not_range:
  assumes "m \<noteq> Inl range_error" and "\<And>x. f x \<noteq> Inl range_error"
  shows "bindE m f \<noteq> Inl range_error"
  using assms by (simp add: bindE_eq_Inl)

lemma mapE_not_range:
  assumes "\<And>x. f x \<noteq> Inl range_error"
  shows "mapE f xs \<noteq> Inl range_error"
  by (induction xs) (simp_all add: bindE_eq_Inl assms)

lemma py_index_not_range: "py_index n i \<noteq> Inl range_error"
  by (simp add: py_index_def range_error_def)

lemma nd_sub_not_range: "nd_sub a b \<noteq> Inl range_error"
  by (simp add: nd_sub_def range_error_def split: option.splits)

lemma cal_diff_not_range:
  assumes "\<And>a b. sub a b \<noteq> Inl range_error"
  shows "cal_diff sub xs \<noteq> Inl range_error"
  using assms by (induction sub xs rule: cal_diff.induct) (simp_all add: bindE_eq_Inl)

lemma keep_first_then_diff_not_range:
  assumes "\<And>a b. sub a b \<noteq> Inl range_error"
  shows "keep_first_then_diff sub xs \<noteq> Inl range_error"
proof (cases xs)
  case Nil
  then show ?thesis by (simp add: keep_first_then_diff_def range_error_def)
next
  case (Cons s0 rest)
  then show ?thesis
    by (simp add: keep_first_then_diff_def bindE_eq_Inl cal_diff_not_range assms)
qed

lemma read_field_not_range: "read_field records field \<noteq> Inl range_error"
  unfolding read_field_def
  by (rule mapE_not_range) (simp add: range_error_def split: option.splits)

lemma fetch_fields_not_range:
  assumes "\<And>a b. sub a b \<noteq> Inl range_error"
  shows "fetch_fields sub records i names flags \<noteq> Inl range_error"
proof (induction names arbitrary: i)
  case Nil
  show ?case by simp
next
  case (Cons field names)
  have "(if i < length flags
         then bindE (if flags ! i then keep_first_then_diff sub state else Inr state) (\<lambda>state'.
                bindE (fetch_fields sub records (Suc i) names flags) (\<lambda>states.
                  Inr (state' # states)))
         else Inl IndexError) \<noteq> Inl range_error" for state
  proof (cases "i < length flags")
    case True
    have "(if flags ! i then keep_first_then_diff sub state else Inr state) \<noteq> Inl range_error"
      by (simp add: keep_first_then_diff_not_range assms)
    moreover have "bindE (fetch_fields sub records (Suc i) names flags)
        (\<lambda>states. Inr (state' # states)) \<noteq> Inl range_error" for state'
      by (rule bindE_not_range) (simp_all add: Cons.IH)
    ultimately show ?thesis using True by (simp add: bindE_eq_Inl)
  next
    case False
    then show ?thesis by (simp add: range_error_def)
  qed
  then show ?case by (simp add: bindE_eq_Inl read_field_not_range)
qed

lemma fetch_state_of_eval_steady:
  assumes "\<And>a b. sub a b \<noteq> Inl range_error"
  shows "steady (fetch_state_of_eval sub sv eval_id field_name diff)"
proof -
  have "normalize_fields field_name diff \<noteq> Inl range_error"
    by (cases "(field_name, diff)" rule: normalize_fields.cases)
      (simp_all add: range_error_def)
  moreover have "bindE (fetch_fields sub records 0 names flags)
      (\<lambda>states. Inr (word_ids, (case states of [state] \<Rightarrow> Single state | _ \<Rightarrow> Multi states)))
        \<noteq> Inl range_error" for records names flags and word_ids :: "int list"
    by (rule bindE_not_range) (simp_all add: fetch_fields_not_range assms)
  ultimately have "bindE (normalize_fields field_name diff) (\<lambda>(names, flags).
      bindE (fetch_fields sub records 0 names flags) (\<lambda>states.
        Inr (word_ids, (case states of [state] \<Rightarrow> Single state | _ \<Rightarrow> Multi states))))
        \<noteq> Inl range_error" for records and word_ids :: "int list"
    by (intro bindE_not_range) (simp_all add: case_prod_unfold)
  then show ?thesis
    by (simp add: steady_def fetch_state_of_eval_def record_event_def Let_def)
qed

lemma steadyD:
  assumes "steady m"
  shows "fst (m w) \<noteq> Inl range_error" and "\<exists>evs. io_trace (snd (m w)) = io_trace w @ evs"
  using assms by (simp_all add: steady_def)

lemma steady_bindIO:
  assumes "steady m" and "\<And>x. steady (f x)"
  shows "steady (bindIO m f)"
  unfolding steady_def
proof (intro allI)
  fix w
  obtain r w' where mw: "m w = (r, w')" by (cases "m w")
  from steadyD [OF assms(1), of w] mw obtain evs where
    r: "r \<noteq> Inl range_error" and tr: "io_trace w' = io_trace w @ evs"
    by auto
  show "fst (bindIO m f w) \<noteq> Inl range_error \<and>
      (\<exists>evs. io_trace (snd (bindIO m f w)) = io_trace w @ evs)"
  proof (cases r)
    case (Inl e)
    with mw r tr show ?thesis by (simp add: bindIO_def)
  next
    case (Inr x)
    from steadyD [OF assms(2), of x w'] obtain evs' where
      "fst (f x w') \<noteq> Inl range_error" "io_trace (snd (f x w')) = io_trace w' @ evs'"
      by auto
    with mw Inr tr show ?thesis by (simp add: bindIO_def)
  qed
qed

lemma steady_returnIO: "steady (returnIO x)"
  by (simp add: steady_def returnIO_def)

lemma steady_liftE: "r \<noteq> Inl range_error \<Longrightarrow> steady (liftE r)"
  by (simp add: steady_def liftE_def)

lemma steady_file_exists: "steady (file_exists path)"
  by (simp add: steady_def file_exists_def record_event_def)

lemma steady_read_pickle: "steady (read_pickle path)"
  by (simp add: steady_def read_pickle_def record_event_def range_error_def
      split: option.splits)

lemma steady_write_pickle: "steady (write_pickle path v)"
  by (simp add: steady_def write_pickle_def record_event_def)

lemma fetch_evals_steady:
  assumes "\<And>a b. sub a b \<noteq> Inl range_error"
  shows "steady (fetch_evals sub sv evals field_name diff word_ids states)"
proof (induction evals arbitrary: word_ids states)
  case Nil
  show ?case by (simp add: steady_def)
next
  case (Cons eval_id evals)
  let ?m = "fetch_state_of_eval sub sv eval_id (FieldName field_name) (DiffFlag diff)"
  show ?case
    unfolding steady_def
  proof (intro allI)
    fix w
    obtain r w' where mw: "?m w = (r, w')" by (cases "?m w")
    have "steady ?m" by (rule fetch_state_of_eval_steady [OF assms])
    from steadyD [OF this, of w] mw
    obtain evs where r: "r \<noteq> Inl range_error" and tr: "io_trace w' = io_trace w @ evs"
      by auto
    show "fst (fetch_evals sub sv (eval_id # evals) field_name diff word_ids states w)
          \<noteq> Inl range_error \<and>
        (\<exists>evs. io_trace (snd (fetch_evals sub sv (eval_id # evals) field_name diff
           word_ids states w)) = io_trace w @ evs)"
    proof (cases r)
      case (Inl e)
      with mw r tr show ?thesis by simp
    next
      case (Inr p)
      obtain word_ids' out where p: "p = (word_ids', out)" by (cases p)
      show ?thesis
      proof (cases out)
        case (Single states')
        have "steady (fetch_evals sub sv evals field_name diff (word_ids @ word_ids')
            (states @ states'))"
          by (rule Cons.IH)
        from steadyD [OF this, of w']
        obtain evs' where
          "fst (fetch_evals sub sv evals field_name diff (word_ids @ word_ids')
             (states @ states') w') \<noteq> Inl range_error"
          "io_trace (snd (fetch_evals sub sv evals field_name diff (word_ids @ word_ids')
             (states @ states') w')) = io_trace w' @ evs'"
          by auto
        with mw Inr p Single tr show ?thesis by simp
      next
        case (Multi x)
        with mw Inr p tr show ?thesis by (simp add: range_error_def)
      qed
    qed
  qed
qed

lemma fetch_states_steady:
  assumes "\<And>a b. sub a b \<noteq> Inl range_error"
  shows "steady (fetch_states sub sv data_name model_name field_name diff)"
  unfolding steady_def
proof (intro allI)
  fix w :: "'a world"
  let ?w' = "record_event (QueryEvals data_name model_name) w"
  let ?evals = "query_evals sv data_name model_name"
  have "steady (fetch_evals sub sv ?evals field_name diff [] [])"
    by (rule fetch_evals_steady [OF assms])
  from steadyD [OF this, of ?w']
  obtain evs where
    "fst (fetch_evals sub sv ?evals field_name diff [] [] ?w') \<noteq> Inl range_error"
    "io_trace (snd (fetch_evals sub sv ?evals field_name diff [] [] ?w')) = io_trace ?w' @ evs"
    by auto
  then show "fst (fetch_states sub sv data_name model_name field_name diff w) \<noteq> Inl range_error \<and>
      (\<exists>evs. io_trace (snd (fetch_states sub sv data_name model_name field_name diff w)) =
         io_trace w @ evs)"
    by (simp add: fetch_states_def Let_def record_event_def range_error_def)
qed

lemma load_words_and_state_steady:
  assumes "\<And>a b. sub a b \<noteq> Inl range_error"
  shows "steady (load_words_and_state sub sv data_name model_name state_name diff)"
  unfolding load_words_and_state_def Let_def
  by (intro steady_bindIO steady_file_exists)
    (auto intro!: steady_bindIO steady_file_exists steady_returnIO steady_read_pickle
      steady_write_pickle steady_liftE fetch_states_steady assms
      simp: range_error_def split: pickled.splits)

lemma sort_by_id_loop_not_range: "sort_by_id_loop k ids states b \<noteq> Inl range_error"
  by (induction ids arbitrary: k b)
    (simp_all add: py_index_def range_error_def split: sum.splits)

lemma py_max_not_range: "py_max xs \<noteq> Inl range_error"
  by (simp add: py_max_def range_error_def split: list.splits)

lemma sort_by_id_not_range: "sort_by_id word_ids states \<noteq> Inl range_error"
  unfolding sort_by_id_def
  by (intro bindE_not_range py_max_not_range sort_by_id_loop_not_range)

lemma nd_stack_not_range: "nd_stack arrays \<noteq> Inl range_error"
  by (simp add: nd_stack_def range_error_def split: list.splits)

lemma strenth_map_not_range:
  assumes "\<And>a. strength_func a \<noteq> Inl range_error"
  shows "strenth_map state_shape strength_func states \<noteq> Inl range_error"
proof (cases states)
  case None
  then show ?thesis by (simp add: strenth_map_def range_error_def)
next
  case (Some sts)
  then show ?thesis
    by (simp add: strenth_map_def bindE_eq_Inl nd_stack_not_range assms)
qed

lemma cal_empirical_strength_not_range:
  assumes "\<And>a. strength_func a \<noteq> Inl range_error"
  shows "cal_empirical_strength id_states strength_func \<noteq> Inl range_error"
proof -
  have "mapE (strenth_map shp strength_func) id_states \<noteq> Inl range_error" for shp
    by (rule mapE_not_range) (rule strenth_map_not_range [OF assms])
  moreover have "Inl IndexError \<noteq> (Inl range_error :: error + ndarray list)"
    "Inl TypeError \<noteq> (Inl range_error :: error + ndarray list)"
    by (simp_all add: range_error_def)
  ultimately show ?thesis
    by (simp add: cal_empirical_strength_def split: list.splits option.splits)
qed

lemma nd_mean_axis0_not_range: "nd_mean_axis0 a \<noteq> Inl range_error"
  by (simp add: nd_mean_axis0_def reduce_axis0_def range_error_def split: list.splits)

lemma nd_take_not_range: "nd_take a idx \<noteq> Inl range_error"
proof -
  have "mapE (py_index n) idx \<noteq> Inl range_error" for n
    by (rule mapE_not_range) (rule py_index_not_range)
  then show ?thesis
    by (simp add: nd_take_def bindE_eq_Inl range_error_def [symmetric] split: list.splits)
      (simp add: range_error_def)
qed

lemma slice_strengths_not_range: "slice_strengths v layers top_k \<noteq> Inl range_error"
  unfolding slice_strengths_def
proof (rule mapE_not_range)
  fix i
  show "(case v of
           PInts ints \<Rightarrow> if i < length ints then Inl TypeError else Inl IndexError
         | PArrays arrays \<Rightarrow>
             if i < length arrays then nd_take (arrays ! i) layers else Inl IndexError)
        \<noteq> Inl range_error"
  proof (cases v)
    case (PInts ints)
    then show ?thesis by (simp add: range_error_def)
  next
    case (PArrays arrays)
    have "Inl IndexError \<noteq> (Inl range_error :: error + ndarray)"
      by (simp add: range_error_def)
    with PArrays show ?thesis by (simp add: nd_take_not_range)
  qed
qed

lemma load_or_compute_strength_steady:
  "steady (load_or_compute_strength sv data_name model_name state_name top_n)"
proof -
  have pure: "bindE (sort_by_id words states) (\<lambda>id_to_states.
      cal_empirical_strength (take (nat top_n) id_to_states) nd_mean_axis0) \<noteq> Inl range_error"
    for words and states :: "ndarray list"
    by (simp add: bindE_eq_Inl sort_by_id_not_range cal_empirical_strength_not_range
        nd_mean_axis0_not_range)
  show ?thesis
    unfolding load_or_compute_strength_def Let_def
    by (intro steady_bindIO steady_file_exists)
      (auto intro!: steady_bindIO steady_read_pickle steady_write_pickle steady_returnIO
        steady_liftE load_words_and_state_steady nd_sub_not_range pure)
qed

lemma load_or_compute_strength_first_event:
  "\<exists>evs. io_trace (snd (load_or_compute_strength sv data_name model_name state_name top_n w)) =
     io_trace w @
       FileExists (get_path sv tmp_dir (strength_file_name data_name model_name state_name top_n))
       # evs"
proof -
  let ?file = "get_path sv tmp_dir (strength_file_name data_name model_name state_name top_n)"
  let ?w1 = "record_event (FileExists ?file) w"
  let ?rest = "\<lambda>cached :: bool.
      if cached then read_pickle ?file
      else bindIO (load_words_and_state nd_sub sv data_name model_name state_name True)
             (\<lambda>(words, states).
           bindIO (liftE (bindE (sort_by_id words states) (\<lambda>id_to_states.
                     cal_empirical_strength (take (nat top_n) id_to_states) nd_mean_axis0)))
             (\<lambda>id_strengths.
           bindIO (write_pickle ?file (PArrays id_strengths)) (\<lambda>_.
             returnIO (PArrays id_strengths))))"
  have pure: "bindE (sort_by_id words states) (\<lambda>id_to_states.
      cal_empirical_strength (take (nat top_n) id_to_states) nd_mean_axis0) \<noteq> Inl range_error"
    for words and states :: "ndarray list"
    by (simp add: bindE_eq_Inl sort_by_id_not_range cal_empirical_strength_not_range
        nd_mean_axis0_not_range)
  have "steady (?rest cached)" for cached
    by (auto intro!: steady_bindIO steady_read_pickle steady_write_pickle steady_returnIO
        steady_liftE load_words_and_state_steady nd_sub_not_range pure)
  from steadyD(2) [OF this, of "files w ?file \<noteq> None" ?w1] obtain evs where
    "io_trace (snd (?rest (files w ?file \<noteq> None) ?w1)) = io_trace ?w1 @ evs"
    by blast
  moreover have "load_or_compute_strength sv data_name model_name state_name top_n w =
      ?rest (files w ?file \<noteq> None) ?w1"
    by (simp add: load_or_compute_strength_def Let_def bindIO_def file_exists_def)
  ultimately show ?thesis by (simp add: record_event_def)
qed

section \<open>Claims about the strength aggregator\<close>

text \<open>
  Claim C5. A call of \<open>get_empirical_strength\<close> with \<open>top_k > 1000\<close>, for instance
  1001, raises the range \<open>ValueError\<close> and leaves the world as it was: no file was
  looked at, read or written and no database query was made. A call with
  \<open>top_k \<le> 1000\<close>, for instance 1000, passes the check: it goes on to look for the cache
  file of its tier, and whatever it returns or raises is not the range \<open>ValueError\<close>.
\<close>

theorem get_empirical_strength_range_check:
  "(1000 < top_k \<longrightarrow>
      get_empirical_strength sv data_name model_name state_name layer top_k w =
        (Inl range_error, w)) \<and>
   get_empirical_strength sv data_name model_name state_name layer 1001 w = (Inl range_error, w) \<and>
   (top_k \<le> 1000 \<longrightarrow>
      fst (get_empirical_strength sv data_name model_name state_name layer top_k w)
        \<noteq> Inl range_error \<and>
      (\<exists>evs. io_trace (snd (get_empirical_strength sv data_name model_name state_name layer top_k w)) =
         io_trace w @
           FileExists (get_path sv tmp_dir
             (strength_file_name data_name model_name state_name (strength_top top_k))) # evs))"
proof -
  let ?load = "load_or_compute_strength sv data_name model_name state_name (strength_top top_k)"
  have passed: "fst (get_empirical_strength sv data_name model_name state_name layer top_k w)
        \<noteq> Inl range_error \<and>
      (\<exists>evs. io_trace (snd (get_empirical_strength sv data_name model_name state_name layer top_k w)) =
         io_trace w @
           FileExists (get_path sv tmp_dir
             (strength_file_name data_name model_name state_name (strength_top top_k))) # evs)"
    if le: "top_k \<le> 1000"
  proof -
    obtain r w' where lw: "?load w = (r, w')" by (cases "?load w")
    from steadyD(1) [OF load_or_compute_strength_steady, of sv data_name model_name state_name
        "strength_top top_k" w] lw
    have r: "r \<noteq> Inl range_error" by simp
    from load_or_compute_strength_first_event [of sv data_name model_name state_name
        "strength_top top_k" w] lw
    obtain evs where tr: "io_trace w' = io_trace w @
        FileExists (get_path sv tmp_dir
          (strength_file_name data_name model_name state_name (strength_top top_k))) # evs"
      by auto
    show ?thesis
    proof (cases r)
      case (Inl e)
      with le lw r tr show ?thesis
        by (simp add: get_empirical_strength_def bindIO_def)
    next
      case (Inr v)
      with le lw tr show ?thesis
        by (simp add: get_empirical_strength_def bindIO_def liftE_def slice_strengths_not_range)
    qed
  qed
  have "get_empirical_strength sv data_name model_name state_name layer k w = (Inl range_error, w)"
    if "1000 < k" for k
    using that by (simp add: get_empirical_strength_def)
  from this [of top_k] this [of 1001] passed show ?thesis by simp
qed

theorem get_empirical_strength_range_check_witness:
  "get_empirical_strength example_services ''ptb'' ''GRU'' ''state'' (LayerInt (- 1)) 1001
     empty_world = (Inl range_error, empty_world) \<and>
   fst (get_empirical_strength example_services ''ptb'' ''GRU'' ''state'' (LayerInt (- 1)) 1000
     empty_world) \<noteq> Inl range_error \<and>
   (\<exists>evs. io_trace (snd (get_empirical_strength example_services ''ptb'' ''GRU'' ''state''
       (LayerInt (- 1)) 1000 empty_world)) =
     FileExists ''_cached/tmp/ptb-GRU-state-1000.pkl'' # evs)"
proof -
  have name: "get_path example_services tmp_dir
      (strength_file_name ''ptb'' ''GRU'' ''state'' (strength_top 1000)) =
      ''_cached/tmp/ptb-GRU-state-1000.pkl''"
    by (simp add: example_services_def tmp_dir_def strength_file_name_def strength_top_def
        str_int_def str_nat.simps)
  from get_empirical_strength_range_check [of 1001 example_services "''ptb''" "''GRU''" "''state''"
      "LayerInt (- 1)" empty_world]
  have "get_empirical_strength example_services ''ptb'' ''GRU'' ''state'' (LayerInt (- 1)) 1001
     empty_world = (Inl range_error, empty_world)"
    by simp
  moreover from get_empirical_strength_range_check [of 1000 example_services "''ptb''" "''GRU''"
      "''state''" "LayerInt (- 1)" empty_world]
  have "fst (get_empirical_strength example_services ''ptb'' ''GRU'' ''state'' (LayerInt (- 1)) 1000
     empty_world) \<noteq> Inl range_error \<and>
   (\<exists>evs. io_trace (snd (get_empirical_strength example_services ''ptb'' ''GRU'' ''state''
       (LayerInt (- 1)) 1000 empty_world)) =
     FileExists ''_cached/tmp/ptb-GRU-state-1000.pkl'' # evs)"
    by (simp add: name) (simp add: empty_world_def)
  ultimately show ?thesis by (simp only: simp_thms)
qed

lemma cal_empirical_strength_zero_fill:
  assumes "id_states = Some (s # sts) # others"
    and "cal_empirical_strength id_states strength_func = Inr out"
  shows "length out = length id_states \<and>
         (\<forall>j < length id_states. id_states ! j = None \<longrightarrow> out ! j = nd_zeros (shape s))"
proof -
  from assms have "mapE (strenth_map (shape s) strength_func) id_states = Inr out"
    by (simp add: cal_empirical_strength_def)
  from mapE_Inr_nth [OF this] show ?thesis
    by (auto simp: strenth_map_def)
qed

text \<open>
  Claim C3. The claim asks that an id without observed states gets a zero-filled array
  and that no error is raised. \<open>cal_empirical_strength\<close> takes the shape of the zeros
  from \<open>id_states[0][0]\<close>, so it raises \<open>TypeError\<close> whenever the bucket of id 0 is the
  one without states, whatever the other buckets hold. Such a list of buckets is what
  \<open>sort_by_id\<close> returns when id 0 does not occur, for instance for the single id 1.
\<close>

theorem cal_empirical_strength_first_bucket_none:
  "cal_empirical_strength (None # id_states) strength_func = Inl TypeError \<and>
   sort_by_id [1] [a] = Inr [None, Some [a]] \<and>
   cal_empirical_strength [None, Some [a]] nd_mean_axis0 = Inl TypeError"
  by (simp add: cal_empirical_strength_def sort_by_id_def py_max_def bindE_def py_index_def
      bucket_items_def numeral_2_eq_2)

lemma example_strengths:
  "fst (load_or_compute_strength example_services ''ptb'' ''GRU'' ''state'' 100 empty_world) =
     Inr (PArrays [\<lparr>shape = [2, 3], data = [1, 2, 3, 4, 5, 6]\<rparr>])"
  by code_simp

lemma example_top_1:
  "fst (get_empirical_strength example_services ''ptb'' ''GRU'' ''state'' (LayerInt (- 1)) 1
     empty_world) = Inr [\<lparr>shape = [1, 3], data = [4, 5, 6]\<rparr>]"
  by code_simp

lemma example_top_100:
  "fst (get_empirical_strength example_services ''ptb'' ''GRU'' ''state'' (LayerInt (- 1)) 100
     empty_world) = Inl IndexError"
  by code_simp

lemma mapE_upt_nth:
  assumes "mapE f [0..<n] = Inr ys"
  shows "length ys = n \<and> (\<forall>i < n. f i = Inr (ys ! i))"
  using mapE_Inr_nth [OF assms] by simp

lemma slice_strengths_arrays:
  assumes "nat top_k \<le> length arrays"
    and "\<forall>i < nat top_k. \<exists>x. nd_take (arrays ! i) layers = Inr x"
  shows "\<exists>res. slice_strengths (PArrays arrays) layers top_k = Inr res \<and>
           length res = nat top_k \<and>
           (\<forall>i < nat top_k. nd_take (arrays ! i) layers = Inr (res ! i))"
proof -
  let ?f = "\<lambda>i. if i < length arrays then nd_take (arrays ! i) layers else Inl IndexError"
  have "\<forall>i \<in> set [0..<nat top_k]. \<exists>x. ?f i = Inr x"
    using assms by auto
  from mapE_total [OF this] obtain res where res: "mapE ?f [0..<nat top_k] = Inr res"
    by blast
  from mapE_upt_nth [OF res] have
    "length res = nat top_k" "\<forall>i < nat top_k. ?f i = Inr (res ! i)"
    by simp_all
  with assms(1) res show ?thesis
    by (auto simp: slice_strengths_def)
qed

text \<open>
  Claim C4, as the code has it. The cache tier of a \<open>top_k \<le> 1000\<close> is the smallest of
  100, 500 and 1000 that is at least \<open>top_k\<close>; for \<open>top_k\<close> = 1, 100, 101, 500, 1000 it
  is 100, 100, 500, 500, 1000. When the strength list of that tier, read from the cache
  file or computed and stored, has at least \<open>top_k\<close> entries that the layer selector can
  index, the call returns exactly its first \<open>top_k\<close> entries, each indexed by the layer
  list, so the result has length \<open>top_k\<close> (no entry for a \<open>top_k\<close> below 1).
\<close>

theorem get_empirical_strength_tier_and_slice:
  assumes "top_k \<le> 1000"
    and "load_or_compute_strength sv data_name model_name state_name (strength_top top_k) w =
           (Inr (PArrays arrays), w')"
    and "nat top_k \<le> length arrays"
    and "\<forall>i < nat top_k. \<exists>x. nd_take (arrays ! i) (layer_list layer) = Inr x"
  shows "strength_top top_k \<in> {100, 500, 1000} \<and> top_k \<le> strength_top top_k \<and>
         (\<forall>t \<in> {100, 500, 1000}. top_k \<le> t \<longrightarrow> strength_top top_k \<le> t) \<and>
         strength_top 1 = 100 \<and> strength_top 100 = 100 \<and> strength_top 101 = 500 \<and>
         strength_top 500 = 500 \<and> strength_top 1000 = 1000 \<and>
         (\<exists>res. get_empirical_strength sv data_name model_name state_name layer top_k w =
                  (Inr res, w') \<and>
                length res = nat top_k \<and>
                (\<forall>i < nat top_k. nd_take (arrays ! i) (layer_list layer) = Inr (res ! i)))"
proof -
  have tier: "strength_top top_k \<in> {100, 500, 1000}" "top_k \<le> strength_top top_k"
    "\<forall>t \<in> {100, 500, 1000}. top_k \<le> t \<longrightarrow> strength_top top_k \<le> t"
    using assms(1) by (simp_all add: strength_top_def)
  have fixed: "strength_top 1 = 100" "strength_top 100 = 100" "strength_top 101 = 500"
    "strength_top 500 = 500" "strength_top 1000 = 1000"
    by (simp_all add: strength_top_def)
  from slice_strengths_arrays [OF assms(3,4)] obtain res where
    res: "slice_strengths (PArrays arrays) (layer_list layer) top_k = Inr res" and
    len: "length res = nat top_k" and
    cont: "\<forall>i < nat top_k. nd_take (arrays ! i) (layer_list layer) = Inr (res ! i)"
    by blast
  have "get_empirical_strength sv data_name model_name state_name layer top_k w = (Inr res, w')"
    using assms(1,2) res by (simp add: get_empirical_strength_def bindIO_def liftE_def)
  with len cont have "\<exists>res. get_empirical_strength sv data_name model_name state_name layer top_k w =
                  (Inr res, w') \<and>
                length res = nat top_k \<and>
                (\<forall>i < nat top_k. nd_take (arrays ! i) (layer_list layer) = Inr (res ! i))"
    by (intro exI [of _ res]) (simp only: simp_thms)
  then show ?thesis by (intro conjI tier fixed)
qed

theorem get_empirical_strength_tier_and_slice_witness:
  "\<exists>res. get_empirical_strength example_services ''ptb'' ''GRU'' ''state'' (LayerInt (- 1)) 1
            empty_world =
          (Inr res, snd (load_or_compute_strength example_services ''ptb'' ''GRU'' ''state'' 100
             empty_world)) \<and>
        length res = 1 \<and>
        nd_take \<lparr>shape = [2, 3], data = [1, 2, 3, 4, 5, 6]\<rparr> [- 1] = Inr (res ! 0)"
proof -
  let ?w' = "snd (load_or_compute_strength example_services ''ptb'' ''GRU'' ''state'' 100
      empty_world)"
  let ?a = "\<lparr>shape = [2, 3], data = [1, 2, 3, 4, 5, 6]\<rparr>"
  have load: "load_or_compute_strength example_services ''ptb'' ''GRU'' ''state''
      (strength_top 1) empty_world = (Inr (PArrays [?a]), ?w')"
    using example_strengths by (simp add: strength_top_def prod_eq_iff)
  have take: "\<forall>i < nat 1. \<exists>x. nd_take ([?a] ! i) (layer_list (LayerInt (- 1))) = Inr x"
    by (simp add: nd_take_def layer_list_def py_index_def bindE_def)
  have "(1 :: int) \<le> 1000" "nat 1 \<le> length [?a]" by simp_all
  from get_empirical_strength_tier_and_slice [OF this(1) load this(2) take]
  show ?thesis by (simp add: layer_list_def)
qed

theorem get_empirical_strength_tier_counterexample:
  "strength_top 100 \<noteq> 500 \<and> strength_top 500 \<noteq> 1000 \<and>
   fst (get_empirical_strength example_services ''ptb'' ''GRU'' ''state'' (LayerInt (- 1)) 100
     empty_world) = Inl IndexError"
  using example_top_100 by (simp add: strength_top_def)

text \<open>
  Claim C9, as the code has it. An integer layer selector is wrapped into a one-element
  list before it indexes the strength arrays, so each returned element keeps a leading
  axis of length 1: its shape is 1 followed by the shape of one layer of the word's
  strength array, and its data is that layer. For strength arrays of shape
  [layers, units] each element is the 1 x units array of the selected layer, a
  two-dimensional array.
\<close>

theorem get_empirical_strength_single_layer_shape:
  assumes "get_empirical_strength sv data_name model_name state_name (LayerInt l) top_k w =
             (Inr res, w')"
  shows "\<exists>v. load_or_compute_strength sv data_name model_name state_name (strength_top top_k) w =
               (Inr v, w') \<and>
             length res = nat top_k \<and>
             (\<forall>i < nat top_k. \<exists>arrays n rest r.
                v = PArrays arrays \<and> i < length arrays \<and>
                shape (arrays ! i) = n # rest \<and> py_index n l = Inr r \<and>
                res ! i = \<lparr>shape = 1 # rest, data = nd_row (arrays ! i) r\<rparr>)"
proof -
  let ?load = "load_or_compute_strength sv data_name model_name state_name (strength_top top_k)"
  from assms have le: "top_k \<le> 1000"
    by (auto simp: get_empirical_strength_def split: if_splits)
  obtain r0 w0 where lw: "?load w = (r0, w0)" by (cases "?load w")
  from assms le lw obtain v where
    v: "r0 = Inr v" and w0: "w0 = w'" and
    sl: "slice_strengths v [l] top_k = Inr res"
    by (cases r0) (auto simp: get_empirical_strength_def bindIO_def liftE_def layer_list_def)
  let ?f = "\<lambda>i. case v of
                  PArrays arrays \<Rightarrow>
                    if i < length arrays then nd_take (arrays ! i) [l] else Inl IndexError
                | PInts ints \<Rightarrow> if i < length ints then Inl TypeError else Inl IndexError"
  from sl have "mapE ?f [0..<nat top_k] = Inr res"
    by (simp add: slice_strengths_def)
  from mapE_upt_nth [OF this] have
    len: "length res = nat top_k" and nth: "\<forall>i < nat top_k. ?f i = Inr (res ! i)"
    by simp_all
  have "\<exists>arrays n rest r.
      v = PArrays arrays \<and> i < length arrays \<and>
      shape (arrays ! i) = n # rest \<and> py_index n l = Inr r \<and>
      res ! i = \<lparr>shape = 1 # rest, data = nd_row (arrays ! i) r\<rparr>"
    if i: "i < nat top_k" for i
  proof (cases v)
    case (PInts ints)
    with nth i show ?thesis by (auto split: if_splits)
  next
    case (PArrays arrays)
    with nth i have il: "i < length arrays" and
      tk: "nd_take (arrays ! i) [l] = Inr (res ! i)"
      by (auto split: if_splits)
    from tk obtain n rest where sh: "shape (arrays ! i) = n # rest"
      by (cases "shape (arrays ! i)") (auto simp: nd_take_def)
    with tk obtain r where "py_index n l = Inr r"
      "res ! i = \<lparr>shape = 1 # rest, data = nd_row (arrays ! i) r\<rparr>"
      by (cases "py_index n l") (auto simp: nd_take_def bindE_def)
    with PArrays il sh show ?thesis by blast
  qed
  with lw v w0 len show ?thesis by simp
qed

theorem get_empirical_strength_single_layer_shape_witness:
  "\<exists>v. load_or_compute_strength example_services ''ptb'' ''GRU'' ''state'' 100 empty_world =
          (Inr v, snd (get_empirical_strength example_services ''ptb'' ''GRU'' ''state''
             (LayerInt (- 1)) 1 empty_world)) \<and>
        (\<exists>arrays n rest r.
            v = PArrays arrays \<and> 0 < length arrays \<and>
            shape (arrays ! 0) = n # rest \<and> py_index n (- 1) = Inr r \<and>
            [\<lparr>shape = [1, 3], data = [4, 5, 6]\<rparr>] ! 0 =
              \<lparr>shape = 1 # rest, data = nd_row (arrays ! 0) r\<rparr>)"
proof -
  let ?w' = "snd (get_empirical_strength example_services ''ptb'' ''GRU'' ''state''
      (LayerInt (- 1)) 1 empty_world)"
  have "get_empirical_strength example_services ''ptb'' ''GRU'' ''state'' (LayerInt (- 1)) 1
      empty_world = (Inr [\<lparr>shape = [1, 3], data = [4, 5, 6]\<rparr>], ?w')"
    using example_top_1 by (simp add: prod_eq_iff)
  from get_empirical_strength_single_layer_shape [OF this]
  show ?thesis by (simp add: strength_top_def)
qed

theorem get_empirical_strength_single_layer_counterexample:
  "fst (get_empirical_strength example_services ''ptb'' ''GRU'' ''state'' (LayerInt (- 1)) 1
     empty_world) = Inr [\<lparr>shape = [1, 3], data = [4, 5, 6]\<rparr>] \<and>
   \<not> list_all (\<lambda>x. length (shape x) = 1) [\<lparr>shape = [1, 3], data = [4, 5, 6]\<rparr>]"
  using example_top_1 by simp

section \<open>Properties of the statistics engine\<close>

lemma map2_map_map: "map2 f (map g xs) (map h xs) = map (\<lambda>x. f (g x) (h x)) xs"
  by (induction xs) simp_all

lemma nd_vstack_vectors:
  assumes "rows \<noteq> []" and "\<forall>r \<in> set rows. shape r = [u]"
  shows "nd_vstack rows = Inr \<lparr>shape = [length rows, u], data = concat (map data rows)\<rparr>"
proof -
  from assms(1) obtain r0 rest where rows: "rows = r0 # rest" by (cases rows) auto
  have two: "map atleast_2d rows = map (\<lambda>r. \<lparr>shape = [1, u], data = data r\<rparr>) rows"
    using assms(2) by (simp add: atleast_2d_def)
  have heads: "sum_list (map (\<lambda>b. hd (shape b)) (map (\<lambda>r. \<lparr>shape = [1, u], data = data r\<rparr>) rs)) =
      length rs" for rs :: "ndarray list"
    by (induction rs) simp_all
  have datas: "concat (map data (map (\<lambda>r. \<lparr>shape = [1, u], data = data r\<rparr>) rs)) =
      concat (map data rs)" for rs :: "ndarray list"
    by (induction rs) simp_all
  have "nd_vstack rows =
      Inr \<lparr>shape = sum_list (map (\<lambda>b. hd (shape b))
                            (map (\<lambda>r. \<lparr>shape = [1, u], data = data r\<rparr>) rows)) # [u],
           data = concat (map data (map (\<lambda>r. \<lparr>shape = [1, u], data = data r\<rparr>) rows))\<rparr>"
    unfolding nd_vstack_def two by (simp add: rows)
  then show ?thesis by (simp only: heads datas)
qed

lemma concat_nth_uniform:
  assumes "\<forall>r \<in> set rs. length r = n" and "i < length rs" and "j < n"
  shows "concat rs ! (i * n + j) = rs ! i ! j"
  using assms
proof (induction rs arbitrary: i)
  case Nil
  then show ?case by simp
next
  case (Cons r rs)
  from Cons.prems have r: "length r = n" by simp
  show ?case
  proof (cases i)
    case 0
    with Cons.prems r show ?thesis by (simp add: nth_append)
  next
    case (Suc i')
    with Cons.prems have "concat rs ! (i' * n + j) = rs ! i' ! j"
      by (intro Cons.IH) simp_all
    with Suc r show ?thesis by (simp add: nth_append)
  qed
qed

lemma nd_row_matrix:
  assumes "shape s = [l, u]" and "length (data s) = l * u" and "layer < l"
  shows "length (nd_row s layer) = u"
    and "j < u \<Longrightarrow> nd_row s layer ! j = data s ! (layer * u + j)"
proof -
  have "Suc layer * u \<le> l * u"
    using assms(3) by (intro mult_le_mono1) simp
  with assms(2) have le: "layer * u + u \<le> length (data s)" by simp
  with assms(1) show "length (nd_row s layer) = u"
    by (simp add: nd_row_def)
  from assms(1) le show "nd_row s layer ! j = data s ! (layer * u + j)" if "j < u"
    using that by (simp add: nd_row_def)
qed

lemma layer_columns:
  assumes "\<forall>s \<in> set states. shape s = [l, u] \<and> length (data s) = l * u"
    and "layer < l"
  shows "nd_columns \<lparr>shape = [length states, u],
                      data = concat (map (\<lambda>s. nd_row s layer) states)\<rparr> =
         map (unit_values states u layer) [0..<u]"
proof -
  let ?rows = "map (\<lambda>s. nd_row s layer) states"
  have len: "\<forall>r \<in> set ?rows. length r = u"
    using assms nd_row_matrix(1) by auto
  have entry: "concat ?rows ! (i * u + j) = data (states ! i) ! (layer * u + j)"
    if "i < length states" "j < u" for i j
  proof -
    have "concat ?rows ! (i * u + j) = ?rows ! i ! j"
      using len that by (intro concat_nth_uniform) simp_all
    also have "\<dots> = nd_row (states ! i) layer ! j"
      using that by simp
    also have "\<dots> = data (states ! i) ! (layer * u + j)"
      using assms that nd_row_matrix(2) [of "states ! i" l u layer j] by simp
    finally show ?thesis .
  qed
  have "map (\<lambda>i. concat ?rows ! (i * u + j)) [0..<length states] =
      map (\<lambda>s. data s ! (layer * u + j)) states" if "j < u" for j
    using entry that by (intro nth_equalityI) simp_all
  then show ?thesis
    by (simp add: nd_columns_def unit_values_def)
qed

lemma nd_elementwise_same_shape:
  "nd_elementwise f \<lparr>shape = shp, data = xs\<rparr> \<lparr>shape = shp, data = ys\<rparr> =
     Inr \<lparr>shape = shp, data = map2 f xs ys\<rparr>"
  by (simp add: nd_elementwise_def)

lemma nd_argsort_vector:
  assumes "shape a = [n]" and "length (data a) = n"
  shows "ishape (nd_argsort a) = [n]"
    and "length (idata (nd_argsort a)) = n"
    and "\<forall>i \<in> set (idata (nd_argsort a)). i < n"
proof -
  show "ishape (nd_argsort a) = [n]"
    using assms by (simp add: nd_argsort_def)
  have idata: "idata (nd_argsort a) = (if n = 0 then [] else argsort_list (data a))"
    using assms by (simp add: nd_argsort_def)
  then show "length (idata (nd_argsort a)) = n"
    using assms(2) by (simp add: argsort_list_def)
  from idata show "\<forall>i \<in> set (idata (nd_argsort a)). i < n"
    using assms(2) by (simp add: argsort_list_def)
qed

lemma nd_gather_vector:
  assumes "shape a = [n]" and "length (data a) = n" and "\<forall>i \<in> set (idata idx). i < n"
  shows "nd_gather a idx =
           Inr \<lparr>shape = ishape idx, data = map (\<lambda>i. data a ! i) (idata idx)\<rparr>"
proof -
  have row: "nd_row a i = [data a ! i]" if "i < n" for i
  proof -
    from that assms(2) have "drop i (data a) = data a ! i # drop (Suc i) (data a)"
      by (simp add: Cons_nth_drop_Suc)
    with assms(1) show ?thesis by (simp add: nd_row_def)
  qed
  have "concat (map (nd_row a) js) = map (\<lambda>i. data a ! i) js" if "\<forall>i \<in> set js. i < n" for js
    using that by (induction js) (simp_all add: row)
  with assms(1,3) show ?thesis by (simp add: nd_gather_def)
qed

lemma bindE_Inr: "bindE (Inr x) f = f x"
  by (simp add: bindE_def)

lemma compute_layer_bands:
  assumes ne: "states \<noteq> []"
    and shp: "\<forall>s \<in> set states. shape s = [l, u] \<and> length (data s) = l * u"
    and layer: "layer < l"
    and lo: "0 \<le> lower_rank num percent" "lower_rank num percent \<le> 100"
    and up: "0 \<le> upper_rank num percent" "upper_rank num percent \<le> 100"
  shows "\<exists>m sd el eu ix.
           compute_layer num states sort_by_mean percent layer = Inr (m, sd, el, eu, ix) \<and>
           length (data el) = u \<and> length (data eu) = u \<and>
           (ix = None) = (\<not> sort_by_mean) \<and>
           (\<forall>j < u. \<exists>k < u.
              (case ix of None \<Rightarrow> k = j | Some idx \<Rightarrow> k = idata idx ! j) \<and>
              data el ! j = lower_band num states u percent layer k \<and>
              data eu ! j = upper_band num states u percent layer k)"
proof -
  let ?c = "unit_values states u layer"
  let ?rows = "map (\<lambda>s. \<lparr>shape = [u], data = nd_row s layer\<rparr>) states"
  let ?mat = "\<lparr>shape = [length states, u],
               data = concat (map (\<lambda>s. nd_row s layer) states)\<rparr>"
  let ?mean = "\<lparr>shape = [u], data = map (\<lambda>j. fl_mean num (?c j)) [0..<u]\<rparr>"
  let ?std = "\<lparr>shape = [u], data = map (\<lambda>j. fl_std num (?c j)) [0..<u]\<rparr>"
  let ?lower = "\<lparr>shape = [u],
      data = map (\<lambda>j. fl_percentile num (?c j) (lower_rank num percent)) [0..<u]\<rparr>"
  let ?upper = "\<lparr>shape = [u],
      data = map (\<lambda>j. fl_percentile num (?c j) (upper_rank num percent)) [0..<u]\<rparr>"
  let ?el = "\<lparr>shape = [u], data = map (lower_band num states u percent layer) [0..<u]\<rparr>"
  let ?eu = "\<lparr>shape = [u], data = map (upper_band num states u percent layer) [0..<u]\<rparr>"
  have "\<forall>s \<in> set states. nd_index s (int layer) = Inr \<lparr>shape = [u], data = nd_row s layer\<rparr>"
    using shp layer by (simp add: nd_index_def py_index_def bindE_def)
  then have s1: "mapE (\<lambda>state. nd_index state (int layer)) states = Inr ?rows"
    by (rule mapE_map)
  have "nd_vstack ?rows = Inr \<lparr>shape = [length ?rows, u], data = concat (map data ?rows)\<rparr>"
    by (rule nd_vstack_vectors) (use ne in simp_all)
  then have s2: "nd_vstack ?rows = Inr ?mat"
    by (simp add: comp_def)
  have cols: "nd_columns ?mat = map ?c [0..<u]"
    by (rule layer_columns [OF shp layer])
  have red: "reduce_axis0 f ?mat = Inr \<lparr>shape = [u], data = map (\<lambda>j. f (?c j)) [0..<u]\<rparr>" for f
    by (simp add: reduce_axis0_def cols comp_def)
  have s3: "reduce_axis0 (fl_std num) ?mat = Inr ?std" by (rule red)
  have s4: "reduce_axis0 (fl_mean num) ?mat = Inr ?mean" by (rule red)
  have s5: "nd_percentile_axis0 num ?mat (lower_rank num percent) = Inr ?lower"
    using lo by (simp add: nd_percentile_axis0_def red not_less [symmetric])
  have s7: "nd_percentile_axis0 num ?mat (upper_rank num percent) = Inr ?upper"
    using up by (simp add: nd_percentile_axis0_def red not_less [symmetric])
  have s6: "nd_elementwise (fl_sub num) ?mean ?lower = Inr ?el"
    by (simp add: nd_elementwise_same_shape map2_map_map lower_band_def Let_def)
  have s8: "nd_elementwise (fl_sub num) ?upper ?mean = Inr ?eu"
    by (simp add: nd_elementwise_same_shape map2_map_map upper_band_def Let_def)
  have body: "compute_layer num states sort_by_mean percent layer =
      (if sort_by_mean
       then bindE (nd_gather ?mean (nd_argsort ?mean)) (\<lambda>mean'.
            bindE (nd_gather ?std (nd_argsort ?mean)) (\<lambda>std'.
            bindE (nd_gather ?eu (nd_argsort ?mean)) (\<lambda>error_u'.
            bindE (nd_gather ?el (nd_argsort ?mean)) (\<lambda>error_l'.
              Inr (mean', std', error_l', error_u', Some (nd_argsort ?mean))))))
       else Inr (?mean, ?std, ?el, ?eu, None))"
    unfolding compute_layer_def s1 bindE_Inr s2 s3 s4 s5 s6 s7 s8 Let_def ..
  show ?thesis
  proof (cases sort_by_mean)
    case False
    with body have "compute_layer num states sort_by_mean percent layer =
        Inr (?mean, ?std, ?el, ?eu, None)"
      by simp
    moreover have "\<forall>j < u. \<exists>k < u. k = j \<and>
        data ?el ! j = lower_band num states u percent layer k \<and>
        data ?eu ! j = upper_band num states u percent layer k"
      by simp
    ultimately show ?thesis
      using False by simp
  next
    case True
    let ?idx = "nd_argsort ?mean"
    have len: "length (idata ?idx) = u" and bound: "\<forall>i \<in> set (idata ?idx). i < u"
      using nd_argsort_vector(2,3) [of ?mean u] by simp_all
    have gather: "nd_gather \<lparr>shape = [u], data = map f [0..<u]\<rparr> ?idx =
        Inr \<lparr>shape = ishape ?idx, data = map (\<lambda>i. map f [0..<u] ! i) (idata ?idx)\<rparr>"
      for f :: "nat \<Rightarrow> real"
      using nd_gather_vector [of "\<lparr>shape = [u], data = map f [0..<u]\<rparr>" u ?idx] bound
      by simp
    let ?g = "\<lambda>f :: nat \<Rightarrow> real.
        \<lparr>shape = ishape ?idx, data = map (\<lambda>i. map f [0..<u] ! i) (idata ?idx)\<rparr>"
    have res: "compute_layer num states sort_by_mean percent layer =
        Inr (?g (\<lambda>j. fl_mean num (?c j)), ?g (\<lambda>j. fl_std num (?c j)),
             ?g (lower_band num states u percent layer),
             ?g (upper_band num states u percent layer), Some ?idx)"
      unfolding body gather bindE_Inr using True by simp
    have "\<exists>k < u. k = idata ?idx ! j \<and>
        data (?g (lower_band num states u percent layer)) ! j =
          lower_band num states u percent layer k \<and>
        data (?g (upper_band num states u percent layer)) ! j =
          upper_band num states u percent layer k" if "j < u" for j
    proof -
      from that len bound have "idata ?idx ! j < u" by simp
      with that len show ?thesis by simp
    qed
    with res len True show ?thesis by simp
  qed
qed

lemma compute_stats_unfold:
  assumes "states = s0 # rest" and "shape s0 = layer_num # shp"
  shows "compute_stats num states sort_by_mean percent =
           bindE (mapE (compute_layer num states sort_by_mean percent) [0..<layer_num])
             (\<lambda>layers.
                Inr \<lparr>means = map (\<lambda>(m, s, l, u, i). m) layers,
                     stds = map (\<lambda>(m, s, l, u, i). s) layers,
                     errors_l = map (\<lambda>(m, s, l, u, i). l) layers,
                     errors_u = map (\<lambda>(m, s, l, u, i). u) layers,
                     indices = map (\<lambda>(m, s, l, u, i). i) layers\<rparr>)"
  using assms by (simp add: compute_stats_def)

lemma compute_stats_layers:
  assumes ne: "states \<noteq> []"
    and shp: "\<forall>s \<in> set states. shape s = [n_layer, n_units] \<and>
                length (data s) = n_layer * n_units"
    and lo: "0 \<le> lower_rank num percent" "lower_rank num percent \<le> 100"
    and up: "0 \<le> upper_rank num percent" "upper_rank num percent \<le> 100"
  shows "\<exists>st. compute_stats num states sort_by_mean percent = Inr st \<and>
           length (errors_l st) = n_layer \<and> length (errors_u st) = n_layer \<and>
           (\<forall>layer < n_layer.
              length (data (errors_l st ! layer)) = n_units \<and>
              length (data (errors_u st ! layer)) = n_units \<and>
              (indices st ! layer = None) = (\<not> sort_by_mean) \<and>
              (\<forall>j < n_units. \<exists>k < n_units.
                 (case indices st ! layer of None \<Rightarrow> k = j | Some idx \<Rightarrow> k = idata idx ! j) \<and>
                 data (errors_l st ! layer) ! j =
                   lower_band num states n_units percent layer k \<and>
                 data (errors_u st ! layer) ! j =
                   upper_band num states n_units percent layer k))"
proof -
  let ?layer = "compute_layer num states sort_by_mean percent"
  from ne obtain s0 rest where states: "states = s0 # rest" by (cases states) auto
  with shp have s0: "shape s0 = n_layer # [n_units]" by simp
  have "\<exists>y. ?layer layer = Inr y" if "layer < n_layer" for layer
    using compute_layer_bands [OF ne shp that lo up, of sort_by_mean]
    by (elim exE conjE) (rule exI)
  then have "\<forall>layer \<in> set [0..<n_layer]. \<exists>y. ?layer layer = Inr y"
    by simp
  from mapE_total [OF this] obtain layers where
    layers: "mapE ?layer [0..<n_layer] = Inr layers"
    by (elim exE)
  from mapE_upt_nth [OF layers] have
    len: "length layers = n_layer" and nth: "\<forall>i < n_layer. ?layer i = Inr (layers ! i)"
    by simp_all
  let ?st = "\<lparr>means = map (\<lambda>(m, s, l, u, i). m) layers,
              stds = map (\<lambda>(m, s, l, u, i). s) layers,
              errors_l = map (\<lambda>(m, s, l, u, i). l) layers,
              errors_u = map (\<lambda>(m, s, l, u, i). u) layers,
              indices = map (\<lambda>(m, s, l, u, i). i) layers\<rparr>"
  have run: "compute_stats num states sort_by_mean percent = Inr ?st"
    unfolding compute_stats_unfold [OF states s0] layers bindE_Inr ..
  have one: "\<forall>layer < n_layer.
      length (data (errors_l ?st ! layer)) = n_units \<and>
      length (data (errors_u ?st ! layer)) = n_units \<and>
      (indices ?st ! layer = None) = (\<not> sort_by_mean) \<and>
      (\<forall>j < n_units. \<exists>k < n_units.
         (case indices ?st ! layer of None \<Rightarrow> k = j | Some idx \<Rightarrow> k = idata idx ! j) \<and>
         data (errors_l ?st ! layer) ! j = lower_band num states n_units percent layer k \<and>
         data (errors_u ?st ! layer) ! j = upper_band num states n_units percent layer k)"
  proof (rule allI, rule impI)
    fix layer
    assume layer: "layer < n_layer"
    from compute_layer_bands [OF ne shp layer lo up, of sort_by_mean]
    obtain m sd el eu ix where
      res: "?layer layer = Inr (m, sd, el, eu, ix)" and
      props: "length (data el) = n_units \<and> length (data eu) = n_units \<and>
        (ix = None) = (\<not> sort_by_mean) \<and>
        (\<forall>j < n_units. \<exists>k < n_units.
           (case ix of None \<Rightarrow> k = j | Some idx \<Rightarrow> k = idata idx ! j) \<and>
           data el ! j = lower_band num states n_units percent layer k \<and>
           data eu ! j = upper_band num states n_units percent layer k)"
      by (elim exE conjE) (simp only: simp_thms)
    from res nth layer have "layers ! layer = (m, sd, el, eu, ix)" by simp
    with layer len have sel: "errors_l ?st ! layer = el" "errors_u ?st ! layer = eu"
      "indices ?st ! layer = ix"
      by simp_all
    show "length (data (errors_l ?st ! layer)) = n_units \<and>
      length (data (errors_u ?st ! layer)) = n_units \<and>
      (indices ?st ! layer = None) = (\<not> sort_by_mean) \<and>
      (\<forall>j < n_units. \<exists>k < n_units.
         (case indices ?st ! layer of None \<Rightarrow> k = j | Some idx \<Rightarrow> k = idata idx ! j) \<and>
         data (errors_l ?st ! layer) ! j = lower_band num states n_units percent layer k \<and>
         data (errors_u ?st ! layer) ! j = upper_band num states n_units percent layer k)"
      unfolding sel by (rule props)
  qed
  have lens: "length (errors_l ?st) = n_layer" "length (errors_u ?st) = n_layer"
    using len by simp_all
  show ?thesis
    by (rule exI [of _ ?st]) (intro conjI run lens one)
qed

lemma band_signs:
  assumes "\<forall>a b. (0 \<le> fl_sub num a b) = (b \<le> a)"
  shows "(0 \<le> lower_band num states n_units percent layer k) =
           (fl_percentile num (unit_values states n_units layer k) (lower_rank num percent)
              \<le> fl_mean num (unit_values states n_units layer k))"
    and "(0 \<le> upper_band num states n_units percent layer k) =
           (fl_mean num (unit_values states n_units layer k)
              \<le> fl_percentile num (unit_values states n_units layer k) (upper_rank num percent))"
  using assms by (simp_all add: lower_band_def upper_band_def Let_def)

lemma singleton_nth: "length xs = 1 \<Longrightarrow> xs = [xs ! 0]"
  by (cases xs) simp_all

lemma skewed_states_shape:
  "skewed_states \<noteq> []"
  "\<forall>s \<in> set skewed_states. shape s = [1, 1] \<and> length (data s) = 1 * 1"
  by (simp_all add: skewed_states_def)

lemma skewed_column:
  "unit_values skewed_states 1 0 0 = [0, 10, 10, 10, 10]"
  "mean_of [0, 10, 10, 10, 10] = 8"
  "percentile_of [0, 10, 10, 10, 10] 0 = 0"
  "percentile_of [0, 10, 10, 10, 10] 25 = 10"
  "percentile_of [0, 10, 10, 10, 10] 75 = 10"
  "percentile_of [0, 10, 10, 10, 10] 100 = 10"
  by code_simp+

lemma skewed_bands:
  "lower_band exact_numerics skewed_states 1 100 0 0 = 8"
  "upper_band exact_numerics skewed_states 1 100 0 0 = 2"
  "lower_band exact_numerics skewed_states 1 50 0 0 = - 2"
  "upper_band exact_numerics skewed_states 1 50 0 0 = 2"
  by (simp_all add: lower_band_def upper_band_def exact_numerics_def lower_rank_def
      upper_rank_def Let_def skewed_column del: One_nat_def)

lemma exact_ranks:
  assumes "0 \<le> percent" and "percent \<le> 100"
  shows "0 \<le> lower_rank exact_numerics percent" "lower_rank exact_numerics percent \<le> 100"
    "0 \<le> upper_rank exact_numerics percent" "upper_rank exact_numerics percent \<le> 100"
  using assms by (simp_all add: lower_rank_def upper_rank_def exact_numerics_def)

section \<open>Claim about the statistics engine\<close>

text \<open>
  Claim C6, as the code has it. For a non-empty sequence of records of one shape
  [layers, units] and a \<open>percent\<close> whose two ranks \<open>(100 - percent) / 2\<close> and
  \<open>50 + percent / 2\<close> lie in 0..100, the range that \<open>np.percentile\<close> accepts,
  \<open>compute_stats\<close> returns one array of lower and one of upper errors per layer, each
  with one entry per unit. The entry at position \<open>j\<close> belongs to unit \<open>j\<close>, or to
  unit \<open>idx[j]\<close> of the returned index array when the layer is sorted by mean, and it
  is that unit's mean minus its percentile at the lower rank, respectively its
  percentile at the upper rank minus its mean. So, with a subtraction whose result is
  at least 0 exactly when the first operand is at least the second, a lower error is at
  least 0 exactly when the unit's mean is not below its lower percentile, and an upper
  error exactly when the mean is not above its upper percentile. Nothing makes the mean
  lie between the two percentiles, so an error can be negative. The statement holds for
  every choice of the arithmetic operations, hence for those of float64.
\<close>

theorem compute_stats_bands:
  assumes "states \<noteq> []"
    and "\<forall>s \<in> set states. shape s = [n_layer, n_units] \<and>
           length (data s) = n_layer * n_units"
    and "0 \<le> lower_rank num percent" and "lower_rank num percent \<le> 100"
    and "0 \<le> upper_rank num percent" and "upper_rank num percent \<le> 100"
  shows "\<exists>st. compute_stats num states sort_by_mean percent = Inr st \<and>
           length (errors_l st) = n_layer \<and> length (errors_u st) = n_layer \<and>
           (\<forall>layer < n_layer.
              length (data (errors_l st ! layer)) = n_units \<and>
              length (data (errors_u st ! layer)) = n_units \<and>
              (\<forall>j < n_units. \<exists>k < n_units.
                 (case indices st ! layer of None \<Rightarrow> k = j | Some idx \<Rightarrow> k = idata idx ! j) \<and>
                 data (errors_l st ! layer) ! j =
                   lower_band num states n_units percent layer k \<and>
                 data (errors_u st ! layer) ! j =
                   upper_band num states n_units percent layer k \<and>
                 ((\<forall>a b. (0 \<le> fl_sub num a b) = (b \<le> a)) \<longrightarrow>
                    (0 \<le> data (errors_l st ! layer) ! j) =
                      (fl_percentile num (unit_values states n_units layer k)
                         (lower_rank num percent)
                       \<le> fl_mean num (unit_values states n_units layer k)) \<and>
                    (0 \<le> data (errors_u st ! layer) ! j) =
                      (fl_mean num (unit_values states n_units layer k)
                       \<le> fl_percentile num (unit_values states n_units layer k)
                            (upper_rank num percent)))))"
proof -
  from compute_stats_layers [OF assms, of sort_by_mean] obtain st where
    run: "compute_stats num states sort_by_mean percent = Inr st" and
    lens: "length (errors_l st) = n_layer" "length (errors_u st) = n_layer" and
    layers: "\<forall>layer < n_layer.
      length (data (errors_l st ! layer)) = n_units \<and>
      length (data (errors_u st ! layer)) = n_units \<and>
      (indices st ! layer = None) = (\<not> sort_by_mean) \<and>
      (\<forall>j < n_units. \<exists>k < n_units.
         (case indices st ! layer of None \<Rightarrow> k = j | Some idx \<Rightarrow> k = idata idx ! j) \<and>
         data (errors_l st ! layer) ! j = lower_band num states n_units percent layer k \<and>
         data (errors_u st ! layer) ! j = upper_band num states n_units percent layer k)"
    by (elim exE conjE) (simp only: simp_thms)
  have "length (data (errors_l st ! layer)) = n_units \<and>
      length (data (errors_u st ! layer)) = n_units \<and>
      (\<forall>j < n_units. \<exists>k < n_units.
         (case indices st ! layer of None \<Rightarrow> k = j | Some idx \<Rightarrow> k = idata idx ! j) \<and>
         data (errors_l st ! layer) ! j = lower_band num states n_units percent layer k \<and>
         data (errors_u st ! layer) ! j = upper_band num states n_units percent layer k \<and>
         ((\<forall>a b. (0 \<le> fl_sub num a b) = (b \<le> a)) \<longrightarrow>
            (0 \<le> data (errors_l st ! layer) ! j) =
              (fl_percentile num (unit_values states n_units layer k) (lower_rank num percent)
               \<le> fl_mean num (unit_values states n_units layer k)) \<and>
            (0 \<le> data (errors_u st ! layer) ! j) =
              (fl_mean num (unit_values states n_units layer k)
               \<le> fl_percentile num (unit_values states n_units layer k)
                    (upper_rank num percent))))"
    if layer: "layer < n_layer" for layer
  proof (intro conjI allI impI)
    from layers layer show "length (data (errors_l st ! layer)) = n_units"
      and "length (data (errors_u st ! layer)) = n_units"
      by simp_all
  next
    fix j
    assume j: "j < n_units"
    from layers layer j obtain k where
      k: "k < n_units"
        "case indices st ! layer of None \<Rightarrow> k = j | Some idx \<Rightarrow> k = idata idx ! j" and
      el: "data (errors_l st ! layer) ! j = lower_band num states n_units percent layer k" and
      eu: "data (errors_u st ! layer) ! j = upper_band num states n_units percent layer k"
      by (elim allE [of _ layer] impE conjE allE [of _ j] exE) (simp_all only: simp_thms)
    show "\<exists>k < n_units.
         (case indices st ! layer of None \<Rightarrow> k = j | Some idx \<Rightarrow> k = idata idx ! j) \<and>
         data (errors_l st ! layer) ! j = lower_band num states n_units percent layer k \<and>
         data (errors_u st ! layer) ! j = upper_band num states n_units percent layer k \<and>
         ((\<forall>a b. (0 \<le> fl_sub num a b) = (b \<le> a)) \<longrightarrow>
            (0 \<le> data (errors_l st ! layer) ! j) =
              (fl_percentile num (unit_values states n_units layer k) (lower_rank num percent)
               \<le> fl_mean num (unit_values states n_units layer k)) \<and>
            (0 \<le> data (errors_u st ! layer) ! j) =
              (fl_mean num (unit_values states n_units layer k)
               \<le> fl_percentile num (unit_values states n_units layer k)
                    (upper_rank num percent)))"
      unfolding el eu using k el eu band_signs [of num states n_units percent layer k]
      by (intro exI [of _ k]) simp
  qed
  then show ?thesis
    using run lens by (intro exI [of _ st]) simp
qed

text \<open>
  The five skewed records at \<open>percent = 100\<close>: the ranks are 0 and 100, the lower
  error is 8 - 0 and the upper error 10 - 8.
\<close>

theorem compute_stats_bands_witness:
  "\<exists>st. compute_stats exact_numerics skewed_states True 100 = Inr st \<and>
     length (errors_l st) = 1 \<and> length (errors_u st) = 1 \<and>
     length (data (errors_l st ! 0)) = 1 \<and> length (data (errors_u st ! 0)) = 1 \<and>
     data (errors_l st ! 0) ! 0 = 8 \<and> data (errors_u st ! 0) ! 0 = 2"
proof -
  have "(0 :: real) \<le> 100" "(100 :: real) \<le> 100" by simp_all
  note ranks = exact_ranks [OF this]
  from compute_stats_bands [OF skewed_states_shape ranks, of True] obtain st where
    run: "compute_stats exact_numerics skewed_states True 100 = Inr st" and
    lens: "length (errors_l st) = 1" "length (errors_u st) = 1" and
    layer: "length (data (errors_l st ! 0)) = 1" "length (data (errors_u st ! 0)) = 1" and
    bands: "\<exists>k < 1 :: nat.
      data (errors_l st ! 0) ! 0 = lower_band exact_numerics skewed_states 1 100 0 k \<and>
      data (errors_u st ! 0) ! 0 = upper_band exact_numerics skewed_states 1 100 0 k"
    by (elim exE conjE) fastforce
  from bands have "data (errors_l st ! 0) ! 0 = 8" "data (errors_u st ! 0) ! 0 = 2"
    by (simp_all add: skewed_bands [unfolded One_nat_def])
  with run lens layer show ?thesis
    by (intro exI [of _ st]) simp
qed

text \<open>
  The same records at the default \<open>percent = 50\<close>: the ranks are 25 and 75, both
  percentiles are 10 and the mean is 8, so the lower error is 8 - 10 = -2. No operation
  rounds on these values, so float64 returns the same numbers.
\<close>

theorem compute_stats_bands_counterexample:
  "\<exists>st. compute_stats exact_numerics skewed_states True 50 = Inr st \<and>
     map data (errors_l st) = [[- 2]] \<and> map data (errors_u st) = [[2]]"
proof -
  have "(0 :: real) \<le> 50" "(50 :: real) \<le> 100" by simp_all
  note ranks = exact_ranks [OF this]
  from compute_stats_layers [OF skewed_states_shape ranks, of True] obtain st where
    run: "compute_stats exact_numerics skewed_states True 50 = Inr st" and
    lens: "length (errors_l st) = 1" "length (errors_u st) = 1" and
    layer: "length (data (errors_l st ! 0)) = 1" "length (data (errors_u st ! 0)) = 1" and
    bands: "\<exists>k < 1 :: nat.
      data (errors_l st ! 0) ! 0 = lower_band exact_numerics skewed_states 1 50 0 k \<and>
      data (errors_u st ! 0) ! 0 = upper_band exact_numerics skewed_states 1 50 0 k"
    by (elim exE conjE) fastforce
  from bands have "data (errors_l st ! 0) ! 0 = - 2" "data (errors_u st ! 0) ! 0 = 2"
    by (simp_all add: skewed_bands [unfolded One_nat_def])
  with singleton_nth [OF layer(1)] singleton_nth [OF layer(2)]
  have "data (errors_l st ! 0) = [- 2]" "data (errors_u st ! 0) = [2]"
    by simp_all
  with singleton_nth [OF lens(1)] singleton_nth [OF lens(2)]
  have "map data (errors_l st) = [[- 2]]" "map data (errors_u st) = [[2]]"
    by (metis list.simps(8,9))+
  with run show ?thesis
    by (intro exI [of _ st]) simp
qed

section \<open>Properties of the cache file names\<close>

lemma digit_in_digits: "n < 10 \<Longrightarrow> ''0123456789'' ! n \<in> set ''0123456789''"
  by (rule nth_mem) simp

lemma digit_inj:
  assumes "a < 10" and "b < 10" and "''0123456789'' ! a = ''0123456789'' ! b"
  shows "a = b"
proof -
  have "distinct ''0123456789''" by simp
  from nth_eq_iff_index_eq [OF this, of a b] assms show ?thesis by simp
qed

lemma str_nat_nonempty: "str_nat n \<noteq> []"
  by (subst str_nat.simps) simp

lemma str_nat_chars: "set (str_nat n) \<subseteq> set ''0123456789''"
proof (induction n rule: str_nat.induct)
  case (1 n)
  show ?case
  proof (cases "n < 10")
    case True
    then have "str_nat n = [''0123456789'' ! n]" by (subst str_nat.simps) simp
    with digit_in_digits [OF True] show ?thesis by simp
  next
    case False
    then have "str_nat n = str_nat (n div 10) @ [''0123456789'' ! (n mod 10)]"
      by (subst str_nat.simps) simp
    moreover have "''0123456789'' ! (n mod 10) \<in> set ''0123456789''"
      by (rule digit_in_digits) simp
    ultimately show ?thesis using "1.IH" [OF False] by simp
  qed
qed

lemma str_nat_no_dash: "CHR ''-'' \<notin> set (str_nat n)"
  using str_nat_chars [of n] by auto

lemma str_nat_inj: "str_nat a = str_nat b \<Longrightarrow> a = b"
proof (induction a arbitrary: b rule: str_nat.induct)
  case (1 a)
  show ?case
  proof (cases "a < 10")
    case a: True
    then have sa: "str_nat a = [''0123456789'' ! a]" by (subst str_nat.simps) simp
    show ?thesis
    proof (cases "b < 10")
      case True
      then have "str_nat b = [''0123456789'' ! b]" by (subst str_nat.simps) simp
      with sa "1.prems" a True show ?thesis by (simp add: digit_inj)
    next
      case False
      then have "str_nat b = str_nat (b div 10) @ [''0123456789'' ! (b mod 10)]"
        by (subst str_nat.simps) simp
      with sa "1.prems" have "str_nat (b div 10) = []" by simp
      with str_nat_nonempty show ?thesis by blast
    qed
  next
    case a: False
    then have sa: "str_nat a = str_nat (a div 10) @ [''0123456789'' ! (a mod 10)]"
      by (subst str_nat.simps) simp
    show ?thesis
    proof (cases "b < 10")
      case True
      then have "str_nat b = [''0123456789'' ! b]" by (subst str_nat.simps) simp
      with sa "1.prems" have "str_nat (a div 10) = []" by simp
      with str_nat_nonempty show ?thesis by blast
    next
      case False
      then have "str_nat b = str_nat (b div 10) @ [''0123456789'' ! (b mod 10)]"
        by (subst str_nat.simps) simp
      with sa "1.prems" have
        hi: "str_nat (a div 10) = str_nat (b div 10)" and
        lo: "''0123456789'' ! (a mod 10) = ''0123456789'' ! (b mod 10)"
        by simp_all
      from "1.IH" [OF a hi] have "a div 10 = b div 10" .
      moreover from lo have "a mod 10 = b mod 10"
        by (intro digit_inj) simp_all
      ultimately show ?thesis by (metis div_mult_mod_eq)
    qed
  qed
qed

lemma last_str_nat_no_dash: "last (str_nat n) \<noteq> CHR ''-''"
  using str_nat_no_dash [of n] str_nat_nonempty [of n] last_in_set by metis

lemma str_int_token:
  "str_int i = (if i < 0 then ''-'' else []) @ str_nat (nat \<bar>i\<bar>)"
  by (simp add: str_int_def)

lemma str_int_nonempty: "str_int i \<noteq> []"
  by (simp add: str_int_def str_nat_nonempty)

lemma last_str_int_no_dash: "last (str_int i) \<noteq> CHR ''-''"
  by (simp add: str_int_def str_nat_nonempty last_str_nat_no_dash)

lemma split_at_first:
  assumes "c \<notin> set a" and "c \<notin> set a'" and "a @ c # x = a' @ c # x'"
  shows "a = a' \<and> x = x'"
  using assms
proof (induction a arbitrary: a')
  case Nil
  then show ?case by (cases a') auto
next
  case (Cons y a)
  then show ?case by (cases a') auto
qed

lemma split_last_token:
  assumes eq: "r @ CHR ''-'' # sg @ b = r' @ CHR ''-'' # sg' @ b'"
    and sg: "sg = [] \<or> sg = ''-''" "sg' = [] \<or> sg' = ''-''"
    and b: "CHR ''-'' \<notin> set b" "CHR ''-'' \<notin> set b'"
    and r: "r = [] \<or> last r \<noteq> CHR ''-''" "r' = [] \<or> last r' \<noteq> CHR ''-''"
  shows "r = r' \<and> sg = sg' \<and> b = b'"
proof -
  let ?t = "\<lambda>sg r. (if sg = [] then rev r else CHR ''-'' # rev r)"
  have tail: "rev (r0 @ CHR ''-'' # sg0 @ b0) = rev b0 @ CHR ''-'' # ?t sg0 r0"
    if "sg0 = [] \<or> sg0 = ''-''" for r0 sg0 b0 :: string
    using that by auto
  from eq have "rev (r @ CHR ''-'' # sg @ b) = rev (r' @ CHR ''-'' # sg' @ b')"
    by simp
  then have eq': "rev b @ CHR ''-'' # ?t sg r = rev b' @ CHR ''-'' # ?t sg' r'"
    by (simp only: tail [OF sg(1)] tail [OF sg(2)])
  have nd: "CHR ''-'' \<notin> set (rev b)" "CHR ''-'' \<notin> set (rev b')"
    using b by simp_all
  from eq' have "rev b = rev b' \<and> ?t sg r = ?t sg' r'"
    by (rule split_at_first [OF nd])
  then have bb: "rev b = rev b'" and tt: "?t sg r = ?t sg' r'"
    by simp_all
  have no_dash_end: "rev r0 \<noteq> CHR ''-'' # x" if "r0 = [] \<or> last r0 \<noteq> CHR ''-''"
    for r0 x :: string
  proof
    assume "rev r0 = CHR ''-'' # x"
    then have "r0 = rev x @ ''-''" by (simp add: rev_swap)
    with that show False by simp
  qed
  have "r = r' \<and> sg = sg'"
  proof (cases "sg = []")
    case True
    show ?thesis
    proof (cases "sg' = []")
      case True
      with \<open>sg = []\<close> tt show ?thesis by simp
    next
      case False
      with \<open>sg = []\<close> tt have "rev r = CHR ''-'' # rev r'" by simp
      with no_dash_end [OF r(1)] show ?thesis by blast
    qed
  next
    case False
    show ?thesis
    proof (cases "sg' = []")
      case True
      with \<open>sg \<noteq> []\<close> tt have "rev r' = CHR ''-'' # rev r" by simp
      with no_dash_end [OF r(2)] show ?thesis by blast
    next
      case False
      with \<open>sg \<noteq> []\<close> tt sg show ?thesis by simp
    qed
  qed
  with bb show ?thesis by simp
qed

lemma split_last_int:
  assumes "r @ CHR ''-'' # str_int i = r' @ CHR ''-'' # str_int i'"
    and "r = [] \<or> last r \<noteq> CHR ''-''" "r' = [] \<or> last r' \<noteq> CHR ''-''"
  shows "r = r' \<and> i = i'"
proof -
  let ?sg = "\<lambda>i :: int. if i < 0 then ''-'' else []"
  from assms(1) have "r @ CHR ''-'' # ?sg i @ str_nat (nat \<bar>i\<bar>) =
      r' @ CHR ''-'' # ?sg i' @ str_nat (nat \<bar>i'\<bar>)"
    by (simp only: str_int_token)
  from split_last_token [OF this _ _ str_nat_no_dash str_nat_no_dash assms(2,3)]
  have "r = r'" "?sg i = ?sg i'" "str_nat (nat \<bar>i\<bar>) = str_nat (nat \<bar>i'\<bar>)"
    by simp_all
  moreover from this(3) have "nat \<bar>i\<bar> = nat \<bar>i'\<bar>" by (rule str_nat_inj)
  ultimately show ?thesis by (auto split: if_splits)
qed

lemma split_last_opt_int:
  assumes "r @ CHR ''-'' # str_opt_int v = r' @ CHR ''-'' # str_opt_int v'"
    and "r = [] \<or> last r \<noteq> CHR ''-''" "r' = [] \<or> last r' \<noteq> CHR ''-''"
  shows "r = r' \<and> v = v'"
proof -
  have none: "r0 @ CHR ''-'' # ''None'' \<noteq> r1 @ CHR ''-'' # str_int i" for r0 r1 i
  proof
    assume "r0 @ CHR ''-'' # ''None'' = r1 @ CHR ''-'' # str_int i"
    then have "last (r0 @ CHR ''-'' # ''None'') = last (r1 @ CHR ''-'' # str_int i)"
      by simp
    then have "CHR ''e'' = last (str_int i)"
      by (simp add: str_int_nonempty)
    moreover have "last (str_int i) = last (str_nat (nat \<bar>i\<bar>))"
      by (simp add: str_int_token str_nat_nonempty)
    moreover have "last (str_nat (nat \<bar>i\<bar>)) \<in> set (str_nat (nat \<bar>i\<bar>))"
      by (rule last_in_set) (rule str_nat_nonempty)
    ultimately have "CHR ''e'' \<in> set ''0123456789''"
      using str_nat_chars [of "nat \<bar>i\<bar>"] by auto
    then show False by simp
  qed
  show ?thesis
  proof (cases v)
    case None
    show ?thesis
    proof (cases v')
      case None
      with \<open>v = None\<close> assms(1) show ?thesis by (simp add: str_opt_int_def)
    next
      case (Some i')
      with \<open>v = None\<close> assms(1) none [of r r' i'] show ?thesis
        by (simp add: str_opt_int_def)
    qed
  next
    case (Some i)
    show ?thesis
    proof (cases v')
      case None
      with Some assms(1) none [of r' r i] show ?thesis
        by (simp add: str_opt_int_def)
    next
      case (Some i')
      with \<open>v = Some i\<close> assms split_last_int [of r i r' i'] show ?thesis
        by (simp add: str_opt_int_def)
    qed
  qed
qed

lemma last_concat_str_int:
  "ls \<noteq> [] \<Longrightarrow> concat (map str_int ls) \<noteq> [] \<and>
     last (concat (map str_int ls)) \<noteq> CHR ''-''"
proof (induction ls)
  case Nil
  then show ?case by simp
next
  case (Cons i ls)
  show ?case
  proof (cases "ls = []")
    case True
    then show ?thesis by (simp add: str_int_nonempty last_str_int_no_dash)
  next
    case False
    with Cons.IH show ?thesis by (simp add: str_int_nonempty)
  qed
qed

lemma layer_str_end: "layer_str layer = [] \<or> last (layer_str layer) \<noteq> CHR ''-''"
proof (cases layer)
  case None
  then show ?thesis by (simp add: layer_str_def)
next
  case (Some l)
  then show ?thesis
    using last_concat_str_int [of "layer_list l"]
    by (cases "layer_list l = []") (simp_all add: layer_str_def)
qed

lemma last_str_opt_int_no_dash: "str_opt_int v \<noteq> [] \<and> last (str_opt_int v) \<noteq> CHR ''-''"
  by (cases v) (simp_all add: str_opt_int_def str_int_nonempty last_str_int_no_dash)

lemma state_signature_file_name_parts:
  "state_signature_file_name d m s layer n dim_opt =
     d @ CHR ''-'' # m @ CHR ''-'' # s @ CHR ''-'' #
       ((layer_str layer @ CHR ''-'' # str_int n) @ CHR ''-'' #
          str_int (case dim_opt of Some k \<Rightarrow> k | None \<Rightarrow> n)) @ ''.pkl''"
  by (cases layer; cases dim_opt) (simp_all add: state_signature_file_name_def layer_str_def)

lemma tsne_projection_file_name_parts:
  "tsne_projection_file_name d m s (Some (LayerInt l)) n dim_opt p =
     Inr (d @ CHR ''-'' # m @ CHR ''-'' # s @ CHR ''-'' #
       (((''tsne'' @ CHR ''-'' # str_int l) @ CHR ''-'' # str_opt_int dim_opt) @ CHR ''-'' #
          str_int (int_of_float p)) @ ''.pkl'')"
  by (simp add: tsne_projection_file_name_def)

lemma split_names:
  assumes "CHR ''-'' \<notin> set d" "CHR ''-'' \<notin> set m" "CHR ''-'' \<notin> set s"
    and "CHR ''-'' \<notin> set d'" "CHR ''-'' \<notin> set m'" "CHR ''-'' \<notin> set s'"
    and "d @ CHR ''-'' # m @ CHR ''-'' # s @ CHR ''-'' # t @ ''.pkl'' =
         d' @ CHR ''-'' # m' @ CHR ''-'' # s' @ CHR ''-'' # t' @ ''.pkl''"
  shows "d = d' \<and> m = m' \<and> s = s' \<and> t = t'"
proof -
  from split_at_first [OF assms(1,4,7)] have d: "d = d'" and
    1: "m @ CHR ''-'' # s @ CHR ''-'' # t @ ''.pkl'' = m' @ CHR ''-'' # s' @ CHR ''-'' # t' @ ''.pkl''"
    by simp_all
  from split_at_first [OF assms(2,5) 1] have m: "m = m'" and
    2: "s @ CHR ''-'' # t @ ''.pkl'' = s' @ CHR ''-'' # t' @ ''.pkl''"
    by simp_all
  from split_at_first [OF assms(3,6) 2] have "s = s'" "t @ ''.pkl'' = t' @ ''.pkl''"
    by simp_all
  with d m show ?thesis by simp
qed

section \<open>Claim about the cache file names\<close>

text \<open>
  Claim C2, as the code has it. Let the dataset, model and state-field names of two
  calls contain no \<open>-\<close>. Two calls of \<open>get_state_signature\<close> that build the same file
  name agree in the three names, in the layer string (\<open>all\<close>, or the layers' decimal
  numerals written one after the other), in the sample size and in the effective
  dimensionality (\<open>dim\<close>, or the sample size when \<open>dim\<close> is \<open>None\<close>). Two calls of
  \<open>get_tsne_projection\<close> that build the same file name agree in the three names, in the
  layer, in \<open>dim\<close> and in the integer part of the perplexity. So calls that differ in one
  of these build distinct names.
\<close>

theorem cache_file_names_distinct:
  assumes "CHR ''-'' \<notin> set d" "CHR ''-'' \<notin> set m" "CHR ''-'' \<notin> set s"
    and "CHR ''-'' \<notin> set d'" "CHR ''-'' \<notin> set m'" "CHR ''-'' \<notin> set s'"
  shows "(state_signature_file_name d m s layer n dim_opt =
            state_signature_file_name d' m' s' layer' n' dim_opt' \<longrightarrow>
          d = d' \<and> m = m' \<and> s = s' \<and> layer_str layer = layer_str layer' \<and> n = n' \<and>
          (case dim_opt of Some k \<Rightarrow> k | None \<Rightarrow> n) =
            (case dim_opt' of Some k \<Rightarrow> k | None \<Rightarrow> n')) \<and>
         (tsne_projection_file_name d m s (Some (LayerInt l)) n dim_opt p =
            tsne_projection_file_name d' m' s' (Some (LayerInt l')) n' dim_opt' p' \<longrightarrow>
          d = d' \<and> m = m' \<and> s = s' \<and> l = l' \<and> dim_opt = dim_opt' \<and>
          int_of_float p = int_of_float p')"
proof (rule conjI; rule impI)
  let ?k = "case dim_opt of Some k \<Rightarrow> k | None \<Rightarrow> n"
  let ?k' = "case dim_opt' of Some k \<Rightarrow> k | None \<Rightarrow> n'"
  assume "state_signature_file_name d m s layer n dim_opt =
      state_signature_file_name d' m' s' layer' n' dim_opt'"
  then have names: "d = d' \<and> m = m' \<and> s = s'" and
    tail: "(layer_str layer @ CHR ''-'' # str_int n) @ CHR ''-'' # str_int ?k =
           (layer_str layer' @ CHR ''-'' # str_int n') @ CHR ''-'' # str_int ?k'"
    using split_names [OF assms] by (simp_all only: state_signature_file_name_parts)
  have "layer_str layer @ CHR ''-'' # str_int n = layer_str layer' @ CHR ''-'' # str_int n' \<and>
      ?k = ?k'"
    by (rule split_last_int [OF tail]) (simp_all add: str_int_nonempty last_str_int_no_dash)
  moreover from this have "layer_str layer = layer_str layer' \<and> n = n'"
    by (intro split_last_int layer_str_end) simp
  ultimately show "d = d' \<and> m = m' \<and> s = s' \<and> layer_str layer = layer_str layer' \<and> n = n' \<and>
      ?k = ?k'"
    using names by simp
next
  assume "tsne_projection_file_name d m s (Some (LayerInt l)) n dim_opt p =
      tsne_projection_file_name d' m' s' (Some (LayerInt l')) n' dim_opt' p'"
  then have names: "d = d' \<and> m = m' \<and> s = s'" and
    tail: "((''tsne'' @ CHR ''-'' # str_int l) @ CHR ''-'' # str_opt_int dim_opt) @ CHR ''-'' #
             str_int (int_of_float p) =
           ((''tsne'' @ CHR ''-'' # str_int l') @ CHR ''-'' # str_opt_int dim_opt') @ CHR ''-'' #
             str_int (int_of_float p')"
    using split_names [OF assms] by (simp_all only: tsne_projection_file_name_parts sum.inject)
  have 1: "(''tsne'' @ CHR ''-'' # str_int l) @ CHR ''-'' # str_opt_int dim_opt =
      (''tsne'' @ CHR ''-'' # str_int l') @ CHR ''-'' # str_opt_int dim_opt' \<and>
      int_of_float p = int_of_float p'"
    by (rule split_last_int [OF tail]) (simp_all add: last_str_opt_int_no_dash)
  then have 2: "''tsne'' @ CHR ''-'' # str_int l = ''tsne'' @ CHR ''-'' # str_int l' \<and>
      dim_opt = dim_opt'"
    by (intro split_last_opt_int) (simp_all add: str_int_nonempty last_str_int_no_dash)
  then have "''tsne'' = ''tsne'' \<and> l = l'"
    by (intro split_last_int) simp_all
  with names 1 2 show "d = d' \<and> m = m' \<and> s = s' \<and> l = l' \<and> dim_opt = dim_opt' \<and>
      int_of_float p = int_of_float p'"
    by simp
qed

theorem cache_file_names_distinct_witness:
  "state_signature_file_name ''ptb'' ''GRU'' ''state'' None 5000 (Some 50) \<noteq>
     state_signature_file_name ''ptb'' ''GRU'' ''state'' None 100 (Some 50) \<and>
   tsne_projection_file_name ''ptb'' ''GRU'' ''state'' (Some (LayerInt 1)) 5000 (Some 50) 40 \<noteq>
     tsne_projection_file_name ''ptb'' ''GRU'' ''state'' (Some (LayerInt 1)) 5000 (Some 50) 30"
proof -
  have names: "CHR ''-'' \<notin> set ''ptb''" "CHR ''-'' \<notin> set ''GRU''" "CHR ''-'' \<notin> set ''state''"
    by simp_all
  from cache_file_names_distinct [OF names names, of None 5000 "Some 50" None 100 "Some 50"]
  have "state_signature_file_name ''ptb'' ''GRU'' ''state'' None 5000 (Some 50) \<noteq>
     state_signature_file_name ''ptb'' ''GRU'' ''state'' None 100 (Some 50)"
    by auto
  moreover
  from cache_file_names_distinct [OF names names, of _ 5000 "Some 50" _ 5000 "Some 50" 1 40 1 30]
  have "tsne_projection_file_name ''ptb'' ''GRU'' ''state'' (Some (LayerInt 1)) 5000 (Some 50) 40 \<noteq>
     tsne_projection_file_name ''ptb'' ''GRU'' ''state'' (Some (LayerInt 1)) 5000 (Some 50) 30"
    by (auto simp: int_of_float_def)
  ultimately show ?thesis by simp
qed

theorem cache_file_names_counterexample:
  "state_signature_file_name ''ptb'' ''GRU'' ''state'' (Some (LayerList [1, 2])) 5000 (Some 50) =
     state_signature_file_name ''ptb'' ''GRU'' ''state'' (Some (LayerList [12])) 5000 (Some 50) \<and>
   state_signature_file_name ''ptb'' ''GRU'' ''state'' None 50 None =
     state_signature_file_name ''ptb'' ''GRU'' ''state'' None 50 (Some 50) \<and>
   state_signature_file_name ''a-b'' ''c'' ''state'' None 5000 (Some 50) =
     state_signature_file_name ''a'' ''b-c'' ''state'' None 5000 (Some 50) \<and>
   tsne_projection_file_name ''ptb'' ''GRU'' ''state'' (Some (LayerInt 1)) 5000 (Some 50) 40 =
     tsne_projection_file_name ''ptb'' ''GRU'' ''state'' (Some (LayerInt 1)) 5000 (Some 50) (81 / 2)"
proof -
  have "str_int 12 = str_int 1 @ str_int 2"
    by (simp add: str_int_def str_nat.simps)
  moreover have "int_of_float (81 / 2) = int_of_float 40"
    by (simp add: int_of_float_def)
  ultimately show ?thesis
    by (simp add: state_signature_file_name_def tsne_projection_file_name_def layer_str_def
        layer_list_def)
qed

end
